theory Spec2Isabelle
  imports Main "HOL-Library.Product_Lexorder"
begin

section \<open>Python values and exceptions\<close>

text \<open>
  The exceptions the modelled functions of \<^verbatim>\<open>aug/seq/seq.py\<close> can raise.
  \<open>KeyError\<close> carries the key that was looked up, as Python's does.
\<close>

datatype py_error = KeyError char | IndexError | ValueError

text \<open>
  Python's \<^verbatim>\<open>max\<close> over a non-empty iterable: the first maximal element.
  On tuples the order is lexicographic (the order of \<open>Product_Lexorder\<close>).
  On the empty iterable Python raises \<^verbatim>\<open>ValueError\<close>; that case has no equation
  here, and \<open>rna_structure_prediction\<close> below returns the error before it calls
  \<open>py_max\<close> on an empty range.
\<close>

fun py_max :: "'a::linorder list \<Rightarrow> 'a" where
  "py_max (x # xs) = fold max xs x"

section \<open>RNA secondary structure: \<^verbatim>\<open>rna_structure_prediction\<close>\<close>

text \<open>
  A matrix cell is a Python tuple of length 3, \<^verbatim>\<open>(score, next_i, next_j)\<close>, or of
  length 5, \<^verbatim>\<open>(score, i, k, k, j)\<close>. The traceback tells them apart by \<^verbatim>\<open>len\<close>.
\<close>

datatype cell = Triple "nat \<times> nat \<times> nat" | Quintuple "nat \<times> nat \<times> nat \<times> nat \<times> nat"

type_synonym matrix = "cell list list"

fun score0 :: "cell \<Rightarrow> nat" where
  "score0 (Triple t) = fst t"
| "score0 (Quintuple q) = fst q"

fun component1 :: "cell \<Rightarrow> nat" where
  "component1 (Triple t) = fst (snd t)"
| "component1 (Quintuple q) = fst (snd q)"

text \<open>\<^verbatim>\<open>rna_to_int_map = dict(A=1, C=2, G=3, U=4)\<close>\<close>

definition rna_to_int_map :: "char \<Rightarrow> nat option" where
  "rna_to_int_map c =
     (if c = CHR ''A'' then Some 1
      else if c = CHR ''C'' then Some 2
      else if c = CHR ''G'' then Some 3
      else if c = CHR ''U'' then Some 4
      else None)"

text \<open>
  \<^verbatim>\<open>rna_int = [rna_to_int_map[letter] for letter in rna]\<close>: the first letter that is
  not a key raises \<^verbatim>\<open>KeyError\<close>.
\<close>

fun rna_int_of :: "string \<Rightarrow> py_error + nat list" where
  "rna_int_of [] = Inr []"
| "rna_int_of (letter # rest) =
     (case rna_to_int_map letter of
        None \<Rightarrow> Inl (KeyError letter)
      | Some v \<Rightarrow> (case rna_int_of rest of Inl e \<Rightarrow> Inl e | Inr vs \<Rightarrow> Inr (v # vs)))"

text \<open>\<^verbatim>\<open>matrix = [[(0, 0, 0)] * len(rna) for _ in rna]\<close>\<close>

definition init_matrix :: "nat \<Rightarrow> matrix" where
  "init_matrix len = replicate len (replicate len (Triple (0, 0, 0)))"

text \<open>
  The body of the inner loop, for one cell \<open>(i, j)\<close>, split at the source's
  assignments. \<open>skip_candidate\<close> is the first \<^verbatim>\<open>m1\<close> (line 847),
  \<open>complement_score\<close> line 849, \<open>m1_candidate\<close> the second \<^verbatim>\<open>m1\<close> (line 850),
  \<open>m2_candidate\<close> line 851 and \<open>fill_cell\<close> the store of line 852.
  The loops only reach cells with \<open>i < j\<close>, so \<open>j - 1\<close> is the integer
  \<^verbatim>\<open>j - 1\<close> and \<^verbatim>\<open>range(i + 1, j + 1)\<close> is not empty.
\<close>

definition skip_candidate :: "matrix \<Rightarrow> nat \<Rightarrow> nat \<Rightarrow> nat \<times> nat \<times> nat" where
  "skip_candidate matrix i j =
     max (score0 (matrix ! (i + 1) ! j), i + 1, j)
         (score0 (matrix ! i ! (j - 1)), i, j - 1)"

definition complement_score :: "nat list \<Rightarrow> matrix \<Rightarrow> nat \<Rightarrow> nat \<Rightarrow> nat" where
  "complement_score rna_int matrix i j =
     (if rna_int ! i + rna_int ! j = 5 then score0 (matrix ! (i + 1) ! (j - 1)) + 1 else 0)"

definition m1_candidate :: "nat list \<Rightarrow> matrix \<Rightarrow> nat \<Rightarrow> nat \<Rightarrow> nat \<times> nat \<times> nat" where
  "m1_candidate rna_int matrix i j =
     (let m1 = skip_candidate matrix i j;
          c = complement_score rna_int matrix i j
      in if fst m1 \<ge> c then m1 else (c, i + 1, j - 1))"

definition bifurcations :: "matrix \<Rightarrow> nat \<Rightarrow> nat \<Rightarrow> (nat \<times> nat \<times> nat \<times> nat \<times> nat) list" where
  "bifurcations matrix i j =
     map (\<lambda>k. (score0 (matrix ! i ! k) + score0 (matrix ! k ! j), i, k, k, j)) [i + 1 ..< j + 1]"

definition m2_candidate :: "matrix \<Rightarrow> nat \<Rightarrow> nat \<Rightarrow> nat \<times> nat \<times> nat \<times> nat \<times> nat" where
  "m2_candidate matrix i j = py_max (bifurcations matrix i j)"

definition chosen_cell :: "nat list \<Rightarrow> matrix \<Rightarrow> nat \<Rightarrow> nat \<Rightarrow> cell" where
  "chosen_cell rna_int matrix i j =
     (let m1 = m1_candidate rna_int matrix i j;
          m2 = m2_candidate matrix i j
      in if fst m1 \<ge> fst m2 then Triple m1 else Quintuple m2)"

definition fill_cell :: "nat list \<Rightarrow> matrix \<Rightarrow> nat \<Rightarrow> nat \<Rightarrow> matrix" where
  "fill_cell rna_int matrix i j =
     matrix[i := (matrix ! i)[j := chosen_cell rna_int matrix i j]]"

text \<open>
  The two loops. \<open>min_size\<close> is the value after \<^verbatim>\<open>min_size += 1\<close>; the ranges are
  \<^verbatim>\<open>range(len(rna_int) - min_size)\<close> and \<^verbatim>\<open>range(len(rna_int) - min_size - n)\<close>,
  empty when the bound is not positive, as natural subtraction makes them.
\<close>

definition fill_span :: "nat list \<Rightarrow> nat \<Rightarrow> nat \<Rightarrow> matrix \<Rightarrow> matrix" where
  "fill_span rna_int min_size n matrix =
     fold (\<lambda>i m. fill_cell rna_int m i (i + min_size + n))
          [0 ..< length rna_int - min_size - n] matrix"

definition fill_matrix :: "nat list \<Rightarrow> nat \<Rightarrow> matrix" where
  "fill_matrix rna_int min_size =
     fold (fill_span rna_int min_size) [0 ..< length rna_int - min_size]
          (init_matrix (length rna_int))"

text \<open>
  \<^verbatim>\<open>_rna_structure_reconstruct_answer\<close>: the \<^verbatim>\<open>while\<close> loop carries \<open>i\<close>, \<open>j\<close> and
  \<open>structure\<close>; \<^verbatim>\<open>score\<close> is always \<^verbatim>\<open>matrix[i][j]\<close>. A tuple of length 5 ends the
  loop with two recursive calls. Nothing in the function bounds the walk, so it is a
  partial function: \<open>None\<close> is "does not return" (the interpreter's recursion limit
  is not part of the model). The test
  \<^verbatim>\<open>next_i - 1 == i and next_j + 1 == j\<close> is over Python integers, hence
  \<open>next_i = i + 1\<close> here (natural \<open>0 - 1\<close> would be \<open>0\<close>).
\<close>

partial_function (option) reconstruct_loop ::
  "matrix \<Rightarrow> nat \<Rightarrow> nat \<Rightarrow> (nat \<times> nat) list \<Rightarrow> (nat \<times> nat) list option" where
  "reconstruct_loop matrix i j structure =
     (case matrix ! i ! j of
        Triple t \<Rightarrow>
          (case t of (s, next_i, next_j) \<Rightarrow>
             if s = 0 then Some structure
             else reconstruct_loop matrix next_i next_j
                    (if next_i = i + 1 \<and> next_j + 1 = j then structure @ [(i, j)]
                     else structure))
      | Quintuple q \<Rightarrow>
          (case q of (s, i1, j1, i2, j2) \<Rightarrow>
             if s = 0 then Some structure
             else Option.bind (reconstruct_loop matrix i1 j1 []) (\<lambda>left.
                  Option.bind (reconstruct_loop matrix i2 j2 []) (\<lambda>right.
                  Some (structure @ left @ right)))))"

declare reconstruct_loop.simps [code]

definition rna_structure_reconstruct_answer ::
  "matrix \<Rightarrow> nat \<Rightarrow> nat \<Rightarrow> (nat \<times> nat) list option" where
  "rna_structure_reconstruct_answer matrix i j = reconstruct_loop matrix i j []"

text \<open>
  The whole function. Its outcome is \<open>None\<close> when the traceback does not return,
  \<open>Some (Inl e)\<close> when \<open>e\<close> is raised and \<open>Some (Inr (pairs, aux))\<close> when the tuple
  \<^verbatim>\<open>(pairs, matrix[0][-1][1])\<close> is returned. The guards are the source's failures, in
  the order they happen:
  \<^item> line 842 raises \<^verbatim>\<open>KeyError\<close> at the first letter outside \<^verbatim>\<open>ACGU\<close>;
  \<^item> with \<open>min_size < 0\<close> the incremented value is \<open>\<le> 0\<close>. If the loops run, their
    first cell is \<open>i = 0\<close>, \<open>j = min_size + 1 \<le> 0\<close>: line 847 reads
    \<^verbatim>\<open>matrix[1][j]\<close> and \<^verbatim>\<open>matrix[0][j - 1]\<close> (negative indices count from the end),
    which raises \<^verbatim>\<open>IndexError\<close> unless \<open>2 \<le> len\<close> and \<open>- min_size \<le> len\<close>; otherwise
    line 851 takes \<^verbatim>\<open>max\<close> of the empty \<^verbatim>\<open>range(1, j + 1)\<close>, a \<^verbatim>\<open>ValueError\<close>.
    If they do not run, the string is empty and line 853 raises as below;
  \<^item> on the empty string line 853 reads \<^verbatim>\<open>matrix[0]\<close> of the empty list:
    \<^verbatim>\<open>IndexError\<close>.
  Otherwise \<open>1 \<le> min_size + 1\<close> and every index of the loops is inside the square
  matrix: a cell \<open>(i, j)\<close> of the loops has \<open>i < j < len\<close> and reads rows and columns
  \<open>i .. j\<close> only (\<open>chosen_cell_cong\<close>, \<open>fill_cell_inv\<close>).
\<close>

definition rna_structure_prediction ::
  "string \<Rightarrow> int \<Rightarrow> (py_error + (nat \<times> nat) list \<times> nat) option" where
  "rna_structure_prediction rna min_size =
     (case rna_int_of rna of
        Inl e \<Rightarrow> Some (Inl e)
      | Inr rna_int \<Rightarrow>
          if min_size < 0 then
            (if 2 \<le> length rna \<and> - min_size \<le> int (length rna)
             then Some (Inl ValueError) else Some (Inl IndexError))
          else if rna = [] then Some (Inl IndexError)
          else
            (let matrix = fill_matrix rna_int (nat (min_size + 1))
             in map_option (\<lambda>pairs. Inr (pairs, component1 (last (matrix ! 0))))
                  (rna_structure_reconstruct_answer matrix 0 (length rna - 1))))"

text \<open>
  The recurrence the two loops compute, cell by cell and without the stores: the cell
  \<open>(i, j)\<close> of a span the loops reach is \<open>chosen_cell\<close> on a matrix that holds the
  cells of the shorter spans and \<^verbatim>\<open>(0, 0, 0)\<close> everywhere else (the state of the
  matrix when the loops arrive at \<open>(i, j)\<close>, as far as \<open>chosen_cell\<close> reads it).
  \<open>fill_matrix_nth\<close> below proves that \<open>fill_matrix\<close> holds exactly these cells.
\<close>

definition tabulate :: "nat \<Rightarrow> (nat \<Rightarrow> nat \<Rightarrow> cell) \<Rightarrow> matrix" where
  "tabulate len f = map (\<lambda>a. map (f a) [0 ..< len]) [0 ..< len]"

function table :: "nat list \<Rightarrow> nat \<Rightarrow> nat \<Rightarrow> nat \<Rightarrow> cell" where
  "table rna_int min_size i j =
     (if i + min_size \<le> j \<and> j < length rna_int
      then chosen_cell rna_int
             (tabulate (length rna_int)
                (\<lambda>a b. if b - a < j - i then table rna_int min_size a b
                       else Triple (0, 0, 0)))
             i j
      else Triple (0, 0, 0))"
  by pat_completeness auto
termination
  by (relation "measure (\<lambda>(rna_int, min_size, i, j). j - i)") auto

declare table.simps [simp del]

text \<open>
  Proof vocabulary for the loops and the traceback. \<open>square\<close>: the matrix is
  \<open>len \<times> len\<close>. \<open>fill_inv\<close>: the state of the matrix when the loops arrive at span
  \<open>n\<close>, row \<open>i\<close>: the cells written so far hold the recurrence, the others \<^verbatim>\<open>(0, 0, 0)\<close>.
  \<open>traced\<close>: what the traceback collects between \<open>i\<close> and \<open>j\<close>: pairs inside
  \<open>i .. j\<close>, at least \<open>min_size\<close> apart (\<open>min_size\<close> the incremented value), with
  complementary codes, in strictly increasing order of their first index.
\<close>

definition square :: "nat \<Rightarrow> matrix \<Rightarrow> bool" where
  "square len m \<longleftrightarrow> length m = len \<and> list_all (\<lambda>row. length row = len) m"

definition fill_inv :: "nat list \<Rightarrow> nat \<Rightarrow> nat \<Rightarrow> nat \<Rightarrow> matrix \<Rightarrow> bool" where
  "fill_inv rna_int min_size n i m \<longleftrightarrow>
     square (length rna_int) m \<and>
     (\<forall>a<length rna_int. \<forall>b<length rna_int.
        m ! a ! b =
          (if b - a < min_size + n \<or> (b - a = min_size + n \<and> a < i)
           then table rna_int min_size a b else Triple (0, 0, 0)))"

definition traced :: "nat list \<Rightarrow> nat \<Rightarrow> nat \<Rightarrow> nat \<Rightarrow> (nat \<times> nat) list \<Rightarrow> bool" where
  "traced rna_int min_size i j xs \<longleftrightarrow>
     list_all (\<lambda>p. i \<le> fst p \<and> snd p \<le> j \<and> fst p + min_size \<le> snd p \<and>
                    rna_int ! fst p + rna_int ! snd p = 5) xs \<and>
     sorted_wrt (\<lambda>p q. fst p < fst q) xs"

section \<open>The failure array: \<^verbatim>\<open>failure_array\<close>\<close>

text \<open>
  Python's slice \<^verbatim>\<open>xs[lo:hi]\<close> on integers: a negative bound counts from the end,
  and both bounds are clamped to \<open>0 .. len\<close>.
\<close>

definition py_slice :: "'a list \<Rightarrow> int \<Rightarrow> int \<Rightarrow> 'a list" where
  "py_slice xs lo hi =
     (let n = int (length xs);
          clamp = (\<lambda>k. if k < 0 then max 0 (k + n) else min k n);
          a = clamp lo;
          b = clamp hi
      in take (nat (b - a)) (drop (nat a) xs))"

text \<open>
  The inner loop \<^verbatim>\<open>for prev in range(result[i - 1], -1, -1)\<close> over the values of
  \<open>prev\<close> still to visit: the first match stores \<^verbatim>\<open>prev + 1\<close> and breaks.
\<close>

fun scan_prev :: "string \<Rightarrow> nat \<Rightarrow> nat list \<Rightarrow> nat list \<Rightarrow> nat list" where
  "scan_prev dna i [] result = result"
| "scan_prev dna i (prev # rest) result =
     (if py_slice dna 0 (int prev + 1) = py_slice dna (int i - int prev) (int i + 1)
      then result[i := prev + 1]
      else scan_prev dna i rest result)"

text \<open>\<^verbatim>\<open>range(result[i - 1], -1, -1)\<close> is \<open>result[i - 1], \<dots>, 1, 0\<close>.\<close>

definition failure_step :: "string \<Rightarrow> nat \<Rightarrow> nat list \<Rightarrow> nat list" where
  "failure_step dna i result = scan_prev dna i (rev [0 ..< result ! (i - 1) + 1]) result"

definition failure_array :: "string \<Rightarrow> nat list" where
  "failure_array dna =
     fold (failure_step dna) [1 ..< length dna] (replicate (length dna) 0)"

text \<open>
  The contract in the specification's words: a length \<open>l\<close> is admissible at position
  \<open>k\<close> when \<open>l < k + 1\<close> and the substring of length \<open>l\<close> that ends at \<open>k\<close> equals the
  prefix of length \<open>l\<close>.
\<close>

definition suffix_is_prefix :: "string \<Rightarrow> nat \<Rightarrow> nat \<Rightarrow> bool" where
  "suffix_is_prefix s k l \<longleftrightarrow> l < k + 1 \<and> take l (drop (k + 1 - l) s) = take l s"

text \<open>
  The invariant of the outer loop when it arrives at position \<open>m\<close>: the entries
  before \<open>m\<close> are the greatest admissible lengths, the entries from \<open>m\<close> on are
  still \<open>0\<close>.
\<close>

definition failure_inv :: "string \<Rightarrow> nat \<Rightarrow> nat list \<Rightarrow> bool" where
  "failure_inv dna m r \<longleftrightarrow>
     length r = length dna \<and>
     (\<forall>k<m. suffix_is_prefix dna k (r ! k) \<and> (\<forall>l. suffix_is_prefix dna k l \<longrightarrow> l \<le> r ! k)) \<and>
     (\<forall>k. m \<le> k \<and> k < length dna \<longrightarrow> r ! k = 0)"

section \<open>Alignment: \<^verbatim>\<open>align\<close>\<close>

text \<open>
  \<^verbatim>\<open>align\<close> drives a method object of the module \<^verbatim>\<open>aug.seq.alignments\<close> through four
  calls. The method is an argument of the function, so it is one here: a record of the
  four operations, with \<^verbatim>\<open>calculate_distance\<close>, which updates the matrix in place,
  returning the updated matrix. The class \<^verbatim>\<open>alignments.NeedlemanWunsch\<close>, which builds
  the default method, is an argument as well.
\<close>

record ('d, 'r, 's) alignment_method =
  init_distance_matrix :: "string \<Rightarrow> string \<Rightarrow> 'd"
  calculate_distance :: "string \<Rightarrow> string \<Rightarrow> 'd \<Rightarrow> nat \<Rightarrow> nat \<Rightarrow> 'd"
  score :: "'d \<Rightarrow> 's"
  reconstruct_answer :: "string \<Rightarrow> string \<Rightarrow> 'd \<Rightarrow> bool \<Rightarrow> 'r"

text \<open>
  What \<^verbatim>\<open>align\<close> returns is a Python tuple of two values or one value; a value is
  what \<^verbatim>\<open>reconstruct_answer\<close> returned or what \<^verbatim>\<open>score\<close> returned.
\<close>

datatype ('r, 's) py_value = Reconstructed 'r | Score 's

datatype ('r, 's) returned =
  Tuple2 "('r, 's) py_value" "('r, 's) py_value" | Single "('r, 's) py_value"

text \<open>
  \<^verbatim>\<open>itertools.product(range(1, len(seq2) + 1), range(1, len(seq1) + 1))\<close> is
  \<open>List.product\<close> of the two ranges: \<open>i\<close> outer, \<open>j\<close> inner.
\<close>

definition filled_distances :: "('d, 'r, 's) alignment_method \<Rightarrow> string \<Rightarrow> string \<Rightarrow> 'd" where
  "filled_distances method seq1 seq2 =
     fold (\<lambda>(i, j) distances. calculate_distance method seq1 seq2 distances i j)
          (List.product [1 ..< length seq2 + 1] [1 ..< length seq1 + 1])
          (init_distance_matrix method seq1 seq2)"

definition align ::
  "(int \<Rightarrow> int \<Rightarrow> int \<Rightarrow> int \<Rightarrow> ('d, 'r, 's) alignment_method) \<Rightarrow>
   string \<Rightarrow> string \<Rightarrow> bool \<Rightarrow> ('d, 'r, 's) alignment_method option \<Rightarrow> bool \<Rightarrow>
   ('r, 's) returned" where
  "align NeedlemanWunsch seq1 seq2 reconstruct method_arg swap_case_on_mismatch =
     (let method = (case method_arg of None \<Rightarrow> NeedlemanWunsch 1 (- 1) (- 1) 1 | Some m \<Rightarrow> m);
          distances = filled_distances method seq1 seq2;
          score = score method distances
      in if reconstruct
         then Tuple2 (Reconstructed (reconstruct_answer method seq1 seq2 distances
                                       swap_case_on_mismatch))
                     (Score score)
         else Single (Score score))"

text \<open>
  Modelled from the spec: the score extraction of a scoring strategy, a method of the
  classes of the module \<^verbatim>\<open>aug.seq.alignments\<close>, which is not among the source files.
  Section 4.1: "\<^verbatim>\<open>extract_score(matrix)\<close>: the value at the bottom-right cell", that is
  the last cell of the last row.
\<close>

definition extract_score :: "'n list list \<Rightarrow> 'n" where
  "extract_score matrix = last (last matrix)"

text \<open>
  Modelled from the spec: the initializer of the Levenshtein strategy (module
  \<^verbatim>\<open>aug.seq.alignments\<close>, not among the source files). Sections 3 and 4.1: a matrix of
  \<open>len(seq2) + 1\<close> rows and \<open>len(seq1) + 1\<close> columns, row 0 and column 0 filled with the
  linear gap cost times the index, the gap cost being the unit cost.
\<close>

definition lev_initialize :: "string \<Rightarrow> string \<Rightarrow> int list list" where
  "lev_initialize seq1 seq2 =
     map (\<lambda>i. map (\<lambda>j. if i = 0 then int j else if j = 0 then int i else 0)
                 [0 ..< length seq1 + 1])
         [0 ..< length seq2 + 1]"

text \<open>
  Modelled from the spec: the substitution cost of the Levenshtein strategy (same
  module): 0 for equal symbols, the unit cost otherwise.
\<close>

definition substitution :: "char \<Rightarrow> char \<Rightarrow> int" where
  "substitution a b = (if a = b then 0 else 1)"

text \<open>
  Modelled from the spec: the cell recurrence of the Levenshtein strategy (same
  module). Section 4.1: the best of the diagonal move
  \<open>matrix[i-1][j-1] + substitution(seq1[j-1], seq2[i-1])\<close>, the vertical move
  \<open>matrix[i-1][j] + gap\<close> and the horizontal move \<open>matrix[i][j-1] + gap\<close>; Levenshtein
  minimizes. The cell is stored in the matrix.
\<close>

definition lev_fill_cell ::
  "string \<Rightarrow> string \<Rightarrow> int list list \<Rightarrow> nat \<Rightarrow> nat \<Rightarrow> int list list" where
  "lev_fill_cell seq1 seq2 matrix i j =
     (let diagonal = matrix ! (i - 1) ! (j - 1) + substitution (seq1 ! (j - 1)) (seq2 ! (i - 1));
          vertical = matrix ! (i - 1) ! j + 1;
          horizontal = matrix ! i ! (j - 1) + 1
      in matrix[i := (matrix ! i)[j := min diagonal (min vertical horizontal)]])"

text \<open>
  Modelled from the spec: the lower case of a symbol, for the rendering of a mismatch
  (same module); the letters \<open>A\<close> to \<open>Z\<close> change, every other symbol stays.
\<close>

definition lower :: "char \<Rightarrow> char" where
  "lower c = (if 65 \<le> (of_char c :: nat) \<and> (of_char c :: nat) \<le> 90
              then char_of (of_char c + 32 :: nat) else c)"

text \<open>
  Modelled from the spec: the reconstruction of the Levenshtein strategy (same
  module). Section 4.1: the walk starts at the bottom-right cell, re-derives at each
  step the move that produced the recorded value (diagonal before vertical before
  horizontal), writes the gap symbol \<open>-\<close> into the sequence that did not advance,
  renders in lower case a position where both advanced and the symbols differ when
  \<open>swap\<close> is set, and ends when both indices are 0.
\<close>

function lev_walk ::
  "string \<Rightarrow> string \<Rightarrow> int list list \<Rightarrow> bool \<Rightarrow> nat \<Rightarrow> nat \<Rightarrow> string \<times> string \<Rightarrow>
   string \<times> string" where
  "lev_walk seq1 seq2 matrix swap i j aligned =
     (if i = 0 \<and> j = 0 then aligned
      else if 0 < i \<and> 0 < j \<and>
              matrix ! i ! j =
                matrix ! (i - 1) ! (j - 1) + substitution (seq1 ! (j - 1)) (seq2 ! (i - 1))
      then lev_walk seq1 seq2 matrix swap (i - 1) (j - 1)
             (if swap \<and> seq1 ! (j - 1) \<noteq> seq2 ! (i - 1)
              then (lower (seq1 ! (j - 1)) # fst aligned, lower (seq2 ! (i - 1)) # snd aligned)
              else (seq1 ! (j - 1) # fst aligned, seq2 ! (i - 1) # snd aligned))
      else if 0 < i \<and> (j = 0 \<or> matrix ! i ! j = matrix ! (i - 1) ! j + 1)
      then lev_walk seq1 seq2 matrix swap (i - 1) j
             (CHR ''-'' # fst aligned, seq2 ! (i - 1) # snd aligned)
      else lev_walk seq1 seq2 matrix swap i (j - 1)
             (seq1 ! (j - 1) # fst aligned, CHR ''-'' # snd aligned))"
  by pat_completeness auto
termination
  by (relation "measure (\<lambda>(seq1, seq2, matrix, swap, i, j, aligned). i + j)") auto

declare lev_walk.simps [simp del]

text \<open>
  Modelled from the spec: the Levenshtein strategy (class \<^verbatim>\<open>alignments.Levinshtein\<close>,
  not among the source files), the four operations above as a method of \<^verbatim>\<open>align\<close>.
\<close>

definition levenshtein :: "(int list list, string \<times> string, int) alignment_method" where
  "levenshtein =
     \<lparr>init_distance_matrix = lev_initialize,
      calculate_distance = lev_fill_cell,
      score = extract_score,
      reconstruct_answer =
        (\<lambda>seq1 seq2 matrix swap.
           lev_walk seq1 seq2 matrix swap (length seq2) (length seq1) ([], []))\<rparr>"

text \<open>
  Modelled from the spec: a class to pass for \<^verbatim>\<open>alignments.NeedlemanWunsch\<close> (not among
  the source files) where a statement is about a given method: every instance is the
  Levenshtein strategy above.
\<close>

definition constant_class ::
  "int \<Rightarrow> int \<Rightarrow> int \<Rightarrow> int \<Rightarrow> (int list list, string \<times> string, int) alignment_method" where
  "constant_class match_score mismatch_score gap_score gap_start = levenshtein"

text \<open>
  The codes of the doctest string \<^verbatim>\<open>CCCAAAGGGAAAGGGAAACCC\<close>, and the collection of the
  cells of the recurrence computed for it.
\<close>

abbreviation rna21 :: "nat list" where
  "rna21 \<equiv> [2, 2, 2, 1, 1, 1, 3, 3, 3, 1, 1, 1, 3, 3, 3, 1, 1, 1, 2, 2, 2]"

named_theorems rna21_cells

section \<open>Invalid symbols and degenerate inputs of \<^verbatim>\<open>rna_structure_prediction\<close>\<close>

lemma rna_to_int_map_None:
  "rna_to_int_map c = None \<longleftrightarrow> c \<notin> {CHR ''A'', CHR ''C'', CHR ''G'', CHR ''U''}"
  by (simp add: rna_to_int_map_def)

lemma rna_int_of_bad:
  "\<exists>c \<in> set rna. rna_to_int_map c = None \<Longrightarrow>
   \<exists>c \<in> set rna. rna_to_int_map c = None \<and> rna_int_of rna = Inl (KeyError c)"
proof (induction rna)
  case Nil
  then show ?case by simp
next
  case (Cons letter rest)
  show ?case
  proof (cases "rna_to_int_map letter")
    case None
    then show ?thesis by auto
  next
    case (Some v)
    with Cons.prems have "\<exists>c \<in> set rest. rna_to_int_map c = None" by auto
    from Cons.IH [OF this] obtain c where "c \<in> set rest" "rna_to_int_map c = None"
      "rna_int_of rest = Inl (KeyError c)" by blast
    with Some show ?thesis by auto
  qed
qed

text \<open>
  Claim C9. Whenever the input holds a symbol outside \<open>A, C, G, U\<close>, the function
  raises, whatever \<open>min_size\<close> is: the dictionary lookup of line 842 raises
  \<^verbatim>\<open>KeyError\<close> for such a symbol of the input, before any cell is computed, and no
  pairing is returned.
\<close>

theorem rna_invalid_symbol_raises:
  assumes "\<exists>c \<in> set rna. c \<notin> {CHR ''A'', CHR ''C'', CHR ''G'', CHR ''U''}"
  shows "\<exists>c \<in> set rna. c \<notin> {CHR ''A'', CHR ''C'', CHR ''G'', CHR ''U''} \<and>
           rna_structure_prediction rna min_size = Some (Inl (KeyError c))"
proof -
  from assms have "\<exists>c \<in> set rna. rna_to_int_map c = None"
    unfolding rna_to_int_map_None .
  from rna_int_of_bad [OF this] obtain c where c: "c \<in> set rna" "rna_to_int_map c = None"
    "rna_int_of rna = Inl (KeyError c)" by blast
  from c(3) have "rna_structure_prediction rna min_size = Some (Inl (KeyError c))"
    by (simp add: rna_structure_prediction_def)
  with c(1,2) show ?thesis unfolding rna_to_int_map_None by blast
qed

theorem rna_invalid_symbol_raises_witness:
  "rna_structure_prediction ''ACXGU'' 3 = Some (Inl (KeyError CHR ''X''))"
proof -
  have "\<exists>c \<in> set ''ACXGU''. c \<notin> {CHR ''A'', CHR ''C'', CHR ''G'', CHR ''U''}" by simp
  from rna_invalid_symbol_raises [OF this, of 3]
  obtain c where "c \<in> set ''ACXGU''" "c \<notin> {CHR ''A'', CHR ''C'', CHR ''G'', CHR ''U''}"
    "rna_structure_prediction ''ACXGU'' 3 = Some (Inl (KeyError c))" by blast
  moreover from this(1,2) have "c = CHR ''X''" by auto
  ultimately show ?thesis by simp
qed

text \<open>
  Claim C8, at the empty sequence (default \<open>min_size = 3\<close>): the loops do not run and
  line 853 indexes row 0 of the empty matrix, so the call raises \<^verbatim>\<open>IndexError\<close>
  where the claim promises an empty pairing.
\<close>

theorem rna_empty_sequence_raises:
  "rna_structure_prediction [] 3 = Some (Inl IndexError)"
  by (simp add: rna_structure_prediction_def)

text \<open>
  Claim C1, at \<^verbatim>\<open>ACCCUCCCA\<close> (default \<open>min_size = 3\<close>): the bifurcation of line 851 adds
  \<^verbatim>\<open>matrix[i][k]\<close> and \<^verbatim>\<open>matrix[k][j]\<close>, two spans that share position \<open>k\<close>, and the
  returned list pairs position 4 twice, with 0 and with 8.
\<close>

theorem rna_shared_index:
  "rna_structure_prediction ''ACCCUCCCA'' 3 = Some (Inr ([(0, 4), (4, 8)], 0))"
  by code_simp

section \<open>The cell recurrence\<close>

lemma fst_max_lex:
  fixes a b :: "'a::linorder \<times> 'b::linorder"
  shows "fst (max a b) = max (fst a) (fst b)"
  by (cases a; cases b) (auto simp: max_def)

lemma fst_fold_max_lex:
  fixes x :: "'a::linorder \<times> 'b::linorder"
  shows "fst (fold max xs x) = Max (fst ` set (x # xs))"
proof (induction xs arbitrary: x)
  case Nil
  then show ?case by simp
next
  case (Cons y ys)
  have "fst (fold max (y # ys) x) = Max (fst ` set (max y x # ys))"
    using Cons.IH [of "max y x"] by simp
  also have "\<dots> = Max (insert (max (fst y) (fst x)) (fst ` set ys))"
    by (simp add: fst_max_lex)
  also have "\<dots> = Max (fst ` set (x # y # ys))"
  proof (cases "ys = []")
    case True
    then show ?thesis by (simp add: max.commute)
  next
    case False
    then show ?thesis by (simp add: max.assoc max.commute max.left_commute)
  qed
  finally show ?case .
qed

lemma fst_py_max_lex:
  fixes xs :: "('a::linorder \<times> 'b::linorder) list"
  assumes "xs \<noteq> []"
  shows "fst (py_max xs) = Max (fst ` set xs)"
  using assms by (cases xs) (simp_all add: fst_fold_max_lex del: set_simps)

lemma fst_m2_candidate:
  assumes "i < j"
  shows "fst (m2_candidate matrix i j) =
         Max ((\<lambda>k. score0 (matrix ! i ! k) + score0 (matrix ! k ! j)) ` {i + 1 .. j})"
proof -
  have ne: "bifurcations matrix i j \<noteq> []"
    using assms by (simp add: bifurcations_def)
  have "fst ` set (bifurcations matrix i j) =
        (\<lambda>k. score0 (matrix ! i ! k) + score0 (matrix ! k ! j)) ` {i + 1 .. j}"
  proof -
    have "set [i + 1 ..< j + 1] = {i + 1 .. j}" by auto
    then show ?thesis by (simp add: bifurcations_def image_image del: set_upt)
  qed
  with fst_py_max_lex [OF ne] show ?thesis by (simp add: m2_candidate_def)
qed

lemma fst_skip_candidate:
  "fst (skip_candidate matrix i j) =
     max (score0 (matrix ! (i + 1) ! j)) (score0 (matrix ! i ! (j - 1)))"
  by (simp add: skip_candidate_def fst_max_lex)

lemma fill_cell_nth_same:
  assumes "i < length matrix" "j < length (matrix ! i)"
  shows "fill_cell rna_int matrix i j ! i ! j = chosen_cell rna_int matrix i j"
  using assms by (simp add: fill_cell_def)

text \<open>
  Claim C2, as the specification states it, at \<^verbatim>\<open>AACCCU\<close> (\<open>min_size = 3\<close>, so the
  incremented value is 4) and the cell \<open>(0, 5)\<close>, in the matrix the loops have built
  when they reach it (span 0 filled): the ends \<open>A\<close> and \<open>U\<close> are complementary, the
  pairing value \<open>matrix[1][4] + 1 = 1\<close> equals the skip value \<open>1\<close>, and line 850 keeps
  the skip candidate \<open>(1, 1, 5)\<close>, not the pairing candidate \<open>(1, 1, 4)\<close>; the call
  returns the pair \<open>(1, 5)\<close>, not \<open>(0, 5)\<close>.
\<close>

theorem pairing_loses_tie:
  "rna_int_of ''AACCCU'' = Inr [1, 1, 2, 2, 2, 4] \<and>
   [1, 1, 2, 2, 2, 4 :: nat] ! 0 + [1, 1, 2, 2, 2, 4] ! 5 = 5 \<and>
   score0 (fill_span [1, 1, 2, 2, 2, 4] 4 0 (init_matrix 6) ! 1 ! 4) + 1 = 1 \<and>
   fst (skip_candidate (fill_span [1, 1, 2, 2, 2, 4] 4 0 (init_matrix 6)) 0 5) = 1 \<and>
   m1_candidate [1, 1, 2, 2, 2, 4] (fill_span [1, 1, 2, 2, 2, 4] 4 0 (init_matrix 6)) 0 5
     = (1, 1, 5) \<and>
   m1_candidate [1, 1, 2, 2, 2, 4] (fill_span [1, 1, 2, 2, 2, 4] 4 0 (init_matrix 6)) 0 5
     \<noteq> (1, 1, 4) \<and>
   rna_structure_prediction ''AACCCU'' 3 = Some (Inr ([(1, 5)], 1))"
  by code_simp

text \<open>
  Claim C2, amended. For a cell with complementary ends, the skip candidate carries
  the greater of \<open>matrix[i+1][j]\<close> and \<open>matrix[i][j-1]\<close>, and the pairing candidate
  \<open>(matrix[i+1][j-1] + 1, i + 1, j - 1)\<close> replaces it exactly when its value is
  strictly greater; on a tie the skip candidate is kept.
\<close>

theorem pairing_only_if_strictly_greater:
  assumes "rna_int ! i + rna_int ! j = 5"
  shows "fst (skip_candidate matrix i j) =
           max (score0 (matrix ! (i + 1) ! j)) (score0 (matrix ! i ! (j - 1))) \<and>
         m1_candidate rna_int matrix i j =
           (if fst (skip_candidate matrix i j) < score0 (matrix ! (i + 1) ! (j - 1)) + 1
            then (score0 (matrix ! (i + 1) ! (j - 1)) + 1, i + 1, j - 1)
            else skip_candidate matrix i j)"
proof -
  have c: "complement_score rna_int matrix i j = score0 (matrix ! (i + 1) ! (j - 1)) + 1"
    using assms by (simp add: complement_score_def)
  have "m1_candidate rna_int matrix i j =
          (if fst (skip_candidate matrix i j) < complement_score rna_int matrix i j
           then (complement_score rna_int matrix i j, i + 1, j - 1)
           else skip_candidate matrix i j)"
    by (simp add: m1_candidate_def Let_def not_less)
  then show ?thesis
    unfolding c using fst_skip_candidate [of matrix i j] by blast
qed

theorem pairing_only_if_strictly_greater_witness:
  "[1, 2, 2, 2, 4 :: nat] ! 0 + [1, 2, 2, 2, 4] ! 4 = 5 \<and>
   m1_candidate [1, 2, 2, 2, 4] (init_matrix 5) 0 4 = (1, 1, 3)"
proof -
  have h: "[1, 2, 2, 2, 4 :: nat] ! 0 + [1, 2, 2, 2, 4] ! 4 = 5" by simp
  have e: "(if fst (skip_candidate (init_matrix 5) 0 4) < score0 (init_matrix 5 ! (0 + 1) ! (4 - 1)) + 1
            then (score0 (init_matrix 5 ! (0 + 1) ! (4 - 1)) + 1, 0 + 1, 4 - 1)
            else skip_candidate (init_matrix 5) 0 4) = (1, 1, 3)"
    by code_simp
  from pairing_only_if_strictly_greater [OF h, of "init_matrix 5"] e h show ?thesis
    by simp
qed

text \<open>
  Claim C3. For a cell \<open>(i, j)\<close> with \<open>i < j\<close> inside the matrix, the value of the
  bifurcation candidate is the greatest \<open>matrix[i][k] + matrix[k][j]\<close> over
  \<open>k = i + 1, \<dots>, j\<close>, and the cell stored by line 852 is that candidate only when its
  value is strictly greater than the value of the non-bifurcating candidate \<^verbatim>\<open>m1\<close>;
  otherwise, so also on a tie, the stored cell is \<^verbatim>\<open>m1\<close>.
\<close>

theorem bifurcation_only_if_strictly_greater:
  assumes "i < j" "i < length matrix" "j < length (matrix ! i)"
  shows "fst (m2_candidate matrix i j) =
           Max ((\<lambda>k. score0 (matrix ! i ! k) + score0 (matrix ! k ! j)) ` {i + 1 .. j}) \<and>
         fill_cell rna_int matrix i j ! i ! j =
           (if fst (m1_candidate rna_int matrix i j) < fst (m2_candidate matrix i j)
            then Quintuple (m2_candidate matrix i j)
            else Triple (m1_candidate rna_int matrix i j))"
  using assms
  by (simp add: fst_m2_candidate fill_cell_nth_same chosen_cell_def Let_def not_less)

theorem bifurcation_only_if_strictly_greater_witness:
  "fill_cell [1, 4, 1] (fill_span [1, 4, 1] 1 0 (init_matrix 3)) 0 2 ! 0 ! 2 =
     Quintuple (2, 0, 1, 1, 2) \<and>
   fill_cell [1, 1, 2, 2, 2, 4] (fill_span [1, 1, 2, 2, 2, 4] 4 0 (init_matrix 6)) 0 5 ! 0 ! 5 =
     Triple (1, 1, 5)"
proof -
  have a: "(0::nat) < 2" "0 < length (fill_span [1, 4, 1] 1 0 (init_matrix 3))"
    "2 < length (fill_span [1, 4, 1] 1 0 (init_matrix 3) ! 0)"
    by code_simp+
  have b: "(0::nat) < 5" "0 < length (fill_span [1, 1, 2, 2, 2, 4] 4 0 (init_matrix 6))"
    "5 < length (fill_span [1, 1, 2, 2, 2, 4] 4 0 (init_matrix 6) ! 0)"
    by code_simp+
  have ea: "(if fst (m1_candidate [1, 4, 1] (fill_span [1, 4, 1] 1 0 (init_matrix 3)) 0 2)
                < fst (m2_candidate (fill_span [1, 4, 1] 1 0 (init_matrix 3)) 0 2)
             then Quintuple (m2_candidate (fill_span [1, 4, 1] 1 0 (init_matrix 3)) 0 2)
             else Triple (m1_candidate [1, 4, 1] (fill_span [1, 4, 1] 1 0 (init_matrix 3)) 0 2))
            = Quintuple (2, 0, 1, 1, 2)"
    by code_simp
  have eb: "(if fst (m1_candidate [1, 1, 2, 2, 2, 4]
                       (fill_span [1, 1, 2, 2, 2, 4] 4 0 (init_matrix 6)) 0 5)
                < fst (m2_candidate (fill_span [1, 1, 2, 2, 2, 4] 4 0 (init_matrix 6)) 0 5)
             then Quintuple (m2_candidate (fill_span [1, 1, 2, 2, 2, 4] 4 0 (init_matrix 6)) 0 5)
             else Triple (m1_candidate [1, 1, 2, 2, 2, 4]
                            (fill_span [1, 1, 2, 2, 2, 4] 4 0 (init_matrix 6)) 0 5))
            = Triple (1, 1, 5)"
    by code_simp
  from bifurcation_only_if_strictly_greater [OF a, of "[1, 4, 1]"] ea
       bifurcation_only_if_strictly_greater [OF b, of "[1, 1, 2, 2, 2, 4]"] eb
  show ?thesis by simp
qed

section \<open>What \<^verbatim>\<open>align\<close> returns\<close>

lemma extract_score_nth:
  assumes "length matrix = rows + 1" "length (last matrix) = cols + 1"
  shows "extract_score matrix = matrix ! rows ! cols"
proof -
  from assms(1) have "matrix \<noteq> []" by auto
  then have "last matrix = matrix ! rows" using assms(1) by (simp add: last_conv_nth)
  moreover from assms(2) have "last matrix \<noteq> []" by auto
  then have "last (last matrix) = last matrix ! cols" using assms(2) by (simp add: last_conv_nth)
  ultimately show ?thesis by (simp add: extract_score_def)
qed

text \<open>The Levenshtein strategy keeps the shape of its matrix.\<close>

lemma lev_fill_cell_lengths: "map length (lev_fill_cell seq1 seq2 matrix i j) = map length matrix"
proof (cases "i < length matrix")
  case True
  then have "(map length matrix)[i := length (matrix ! i)] = map length matrix"
    by (simp add: list_update_same_conv)
  then show ?thesis by (simp add: lev_fill_cell_def Let_def map_update)
next
  case False
  then have "length matrix \<le> i" by simp
  then show ?thesis by (simp add: lev_fill_cell_def Let_def list_update_beyond)
qed

lemma lev_fold_lengths:
  "map length (fold (\<lambda>(i, j) distances. lev_fill_cell seq1 seq2 distances i j) cells matrix)
     = map length matrix"
  by (induction cells arbitrary: matrix) (auto simp: lev_fill_cell_lengths)

lemma lev_initialize_lengths:
  "map length (lev_initialize seq1 seq2) = replicate (length seq2 + 1) (length seq1 + 1)"
proof -
  have "map length (lev_initialize seq1 seq2) =
        map (\<lambda>i. length seq1 + 1) [0 ..< length seq2 + 1]"
    by (simp add: lev_initialize_def comp_def del: upt_Suc)
  also have "\<dots> = replicate (length [0 ..< length seq2 + 1]) (length seq1 + 1)"
    by (rule map_replicate_const)
  finally show ?thesis by simp
qed

lemma levenshtein_shape:
  "length (filled_distances levenshtein seq1 seq2) = length seq2 + 1 \<and>
   length (last (filled_distances levenshtein seq1 seq2)) = length seq1 + 1"
proof -
  let ?d = "filled_distances levenshtein seq1 seq2"
  have l: "map length ?d = replicate (length seq2 + 1) (length seq1 + 1)"
    by (simp add: filled_distances_def levenshtein_def lev_fold_lengths lev_initialize_lengths)
  then have "length (map length ?d) = length seq2 + 1" by simp
  then have len: "length ?d = length seq2 + 1" by simp
  then have "?d \<noteq> []" by auto
  then have "length (last ?d) = last (map length ?d)" by (simp add: last_map)
  with l len show ?thesis by simp
qed

text \<open>The filled matrix and the walk for \<^verbatim>\<open>editing\<close> and \<^verbatim>\<open>distance\<close>.\<close>

lemma lev_example_matrix:
  "filled_distances levenshtein ''editing'' ''distance'' =
     [[0, 1, 2, 3, 4, 5, 6, 7], [1, 1, 1, 2, 3, 4, 5, 6],
      [2, 2, 2, 1, 2, 3, 4, 5], [3, 3, 3, 2, 2, 3, 4, 5],
      [4, 4, 4, 3, 2, 3, 4, 5], [5, 5, 5, 4, 3, 3, 4, 5],
      [6, 6, 6, 5, 4, 4, 3, 4], [7, 7, 7, 6, 5, 5, 4, 4],
      [8, 7, 8, 7, 6, 6, 5, 5]]"
  by code_simp

lemma lev_example_walk:
  "reconstruct_answer levenshtein ''editing'' ''distance''
     (filled_distances levenshtein ''editing'' ''distance'') True =
   (''edi-tin-g'', ''-distance'')"
  unfolding lev_example_matrix by code_simp

text \<open>
  Claim C5, as the specification states it (the score first, the alignment second), on
  the Levenshtein strategy and the two strings of the doctest of \<^verbatim>\<open>edit_distance\<close>: the
  tuple returned holds the reconstructed alignment first and the score second; the
  score is the bottom-right cell of the filled matrix, 5 as in the doctest.
\<close>

theorem align_score_is_second:
  "align constant_class ''editing'' ''distance'' True (Some levenshtein) True =
     Tuple2 (Reconstructed (''edi-tin-g'', ''-distance'')) (Score 5) \<and>
   filled_distances levenshtein ''editing'' ''distance'' ! length ''distance'' ! length ''editing''
     = 5 \<and>
   align constant_class ''editing'' ''distance'' True (Some levenshtein) True \<noteq>
     Tuple2 (Score 5) (Reconstructed (''edi-tin-g'', ''-distance''))"
proof -
  have s: "score levenshtein (filled_distances levenshtein ''editing'' ''distance'') = 5"
    unfolding lev_example_matrix by (simp add: levenshtein_def extract_score_def)
  have c: "filled_distances levenshtein ''editing'' ''distance'' ! length ''distance''
             ! length ''editing'' = 5"
    unfolding lev_example_matrix by simp
  show ?thesis
    using s c lev_example_walk by (simp add: align_def Let_def)
qed

text \<open>
  Claim C5, amended. For all sequences and every strategy (the default one when none is
  given) that extracts its score as the specification says and whose filled matrix
  has the \<open>len(seq2) + 1\<close> rows and \<open>len(seq1) + 1\<close> columns of the specification,
  \<^verbatim>\<open>align\<close> with reconstruction requested returns the pair of the reconstructed
  alignment, first, and the extracted score, second, which is the bottom-right cell
  \<open>[len(seq2)][len(seq1)]\<close> of the filled matrix; with reconstruction not requested it
  returns that score alone.
\<close>

theorem align_returns_answer_then_score:
  assumes "method = (case method_arg of None \<Rightarrow> NeedlemanWunsch 1 (- 1) (- 1) 1 | Some m \<Rightarrow> m)"
    and "distances = filled_distances method seq1 seq2"
    and "score method = extract_score"
    and "length distances = length seq2 + 1"
    and "length (last distances) = length seq1 + 1"
  shows "align NeedlemanWunsch seq1 seq2 True method_arg swap =
           Tuple2 (Reconstructed (reconstruct_answer method seq1 seq2 distances swap))
                  (Score (distances ! length seq2 ! length seq1)) \<and>
         align NeedlemanWunsch seq1 seq2 False method_arg swap =
           Single (Score (distances ! length seq2 ! length seq1))"
proof -
  have "score method distances = distances ! length seq2 ! length seq1"
    using assms(3) extract_score_nth [OF assms(4,5)] by simp
  then show ?thesis using assms(1,2) by (simp add: align_def Let_def)
qed

theorem align_returns_answer_then_score_witness:
  "align constant_class ''editing'' ''distance'' True None True =
     Tuple2 (Reconstructed (''edi-tin-g'', ''-distance'')) (Score 5) \<and>
   align constant_class ''editing'' ''distance'' False None True = Single (Score 5)"
proof -
  let ?d = "filled_distances levenshtein ''editing'' ''distance''"
  have m: "levenshtein = (case None of None \<Rightarrow> constant_class 1 (- 1) (- 1) 1 | Some m \<Rightarrow> m)"
    by (simp add: constant_class_def)
  have s: "score levenshtein = extract_score" by (simp add: levenshtein_def)
  have c: "?d ! length ''distance'' ! length ''editing'' = 5"
    unfolding lev_example_matrix by simp
  have r: "length ?d = length ''distance'' + 1" "length (last ?d) = length ''editing'' + 1"
    using levenshtein_shape [of "''editing''" "''distance''"] by blast+
  from align_returns_answer_then_score
         [of levenshtein constant_class None ?d "''editing''" "''distance''" True,
          OF m refl s r]
  show ?thesis unfolding c lev_example_walk .
qed

section \<open>The failure array is the table of greatest lengths\<close>

lemma py_slice_prefix: "py_slice xs 0 (int prev + 1) = take (prev + 1) xs"
  by (simp add: py_slice_def Let_def min_def nat_add_distrib)

lemma py_slice_window:
  assumes "prev \<le> i" "i < length xs"
  shows "py_slice xs (int i - int prev) (int i + 1) = take (prev + 1) (drop (i - prev) xs)"
proof -
  have "nat (int i + 1 - (int i - int prev)) = prev + 1" by simp
  moreover have "nat (int i - int prev) = i - prev" by simp
  ultimately show ?thesis
    using assms by (simp add: py_slice_def Let_def min_def del: of_nat_diff)
qed

lemma match_iff:
  assumes "prev < i" "i < length dna"
  shows "py_slice dna 0 (int prev + 1) = py_slice dna (int i - int prev) (int i + 1)
         \<longleftrightarrow> suffix_is_prefix dna i (prev + 1)"
proof -
  have "i + 1 - (prev + 1) = i - prev" by simp
  then show ?thesis
    using assms py_slice_window [of prev i dna]
    by (auto simp: py_slice_prefix suffix_is_prefix_def)
qed

lemma suffix_is_prefix_0: "suffix_is_prefix s k 0"
  by (simp add: suffix_is_prefix_def)

lemma suffix_is_prefix_less: "suffix_is_prefix s k l \<Longrightarrow> l \<le> k"
  by (simp add: suffix_is_prefix_def)

lemma suffix_is_prefix_pred:
  assumes "suffix_is_prefix s (Suc k) (Suc l)"
  shows "suffix_is_prefix s k l"
proof -
  from assms have l: "l \<le> k" and eq: "take (Suc l) (drop (Suc k - l) s) = take (Suc l) s"
    by (simp_all add: suffix_is_prefix_def)
  have "take l (drop (Suc k - l) s) = take l (take (Suc l) (drop (Suc k - l) s))"
    by (simp add: min_def)
  also have "\<dots> = take l (take (Suc l) s)" by (simp only: eq)
  also have "\<dots> = take l s" by (simp add: min_def)
  finally show ?thesis using l by (simp add: suffix_is_prefix_def)
qed

lemma scan_prev_result:
  assumes "m \<le> i" "i < length dna"
  shows "\<exists>v. v \<le> m \<and> suffix_is_prefix dna i v \<and>
             (\<forall>l. v < l \<and> l \<le> m \<longrightarrow> \<not> suffix_is_prefix dna i l) \<and>
             scan_prev dna i (rev [0 ..< m]) result = (if v = 0 then result else result[i := v])"
  using assms(1)
proof (induction m)
  case 0
  show ?case by (rule exI [of _ 0]) (auto simp: suffix_is_prefix_0)
next
  case (Suc m)
  then have m: "m < i" "m \<le> i" by simp_all
  show ?case
  proof (cases "suffix_is_prefix dna i (m + 1)")
    case True
    then have "scan_prev dna i (rev [0 ..< Suc m]) result = result[i := m + 1]"
      using match_iff [OF m(1) assms(2)] by simp
    with True show ?thesis by (intro exI [of _ "Suc m"]) auto
  next
    case False
    then have step: "scan_prev dna i (rev [0 ..< Suc m]) result
                     = scan_prev dna i (rev [0 ..< m]) result"
      using match_iff [OF m(1) assms(2)] by simp
    from Suc.IH [OF m(2)] obtain v where v: "v \<le> m" "suffix_is_prefix dna i v"
      "\<forall>l. v < l \<and> l \<le> m \<longrightarrow> \<not> suffix_is_prefix dna i l"
      "scan_prev dna i (rev [0 ..< m]) result = (if v = 0 then result else result[i := v])"
      by blast
    have "\<forall>l. v < l \<and> l \<le> Suc m \<longrightarrow> \<not> suffix_is_prefix dna i l"
      using v(3) False by (auto simp: le_Suc_eq)
    with v(1,2,4) step show ?thesis by (intro exI [of _ v]) simp
  qed
qed

lemma failure_step_inv:
  assumes inv: "failure_inv dna (Suc i) r" and i: "Suc i < length dna"
  shows "failure_inv dna (Suc (Suc i)) (failure_step dna (Suc i) r)"
proof -
  from inv have len: "length r = length dna"
    and prev: "suffix_is_prefix dna i (r ! i)" "\<And>l. suffix_is_prefix dna i l \<Longrightarrow> l \<le> r ! i"
    and old: "\<And>k. k < Suc i \<Longrightarrow> suffix_is_prefix dna k (r ! k) \<and> (\<forall>l. suffix_is_prefix dna k l \<longrightarrow> l \<le> r ! k)"
    and zero: "\<And>k. Suc i \<le> k \<Longrightarrow> k < length dna \<Longrightarrow> r ! k = 0"
    by (simp_all add: failure_inv_def)
  have bound: "r ! i + 1 \<le> Suc i" using suffix_is_prefix_less [OF prev(1)] by simp
  from scan_prev_result [OF bound i, of r] obtain v where v: "v \<le> r ! i + 1"
    "suffix_is_prefix dna (Suc i) v"
    "\<forall>l. v < l \<and> l \<le> r ! i + 1 \<longrightarrow> \<not> suffix_is_prefix dna (Suc i) l"
    "failure_step dna (Suc i) r = (if v = 0 then r else r[Suc i := v])"
    by (auto simp: failure_step_def)
  let ?r = "failure_step dna (Suc i) r"
  have at: "?r ! Suc i = v" using v(4) zero [of "Suc i"] i len by (cases "v = 0") simp_all
  have other: "\<And>k. k \<noteq> Suc i \<Longrightarrow> ?r ! k = r ! k" using v(4) by simp
  have len': "length ?r = length dna" using v(4) len by simp
  have greatest: "l \<le> v" if "suffix_is_prefix dna (Suc i) l" for l
  proof (cases l)
    case 0
    then show ?thesis by simp
  next
    case (Suc l')
    with that have "suffix_is_prefix dna i l'" by (simp add: suffix_is_prefix_pred)
    then have "l' \<le> r ! i" by (rule prev(2))
    with Suc have "l \<le> r ! i + 1" by simp
    with v(3) that show ?thesis by (meson not_le)
  qed
  have filled: "suffix_is_prefix dna k (?r ! k) \<and> (\<forall>l. suffix_is_prefix dna k l \<longrightarrow> l \<le> ?r ! k)"
    if "k < Suc (Suc i)" for k
  proof -
    from that consider "k = Suc i" | "k < Suc i" by linarith
    then show ?thesis
    proof cases
      case 1
      then show ?thesis using at v(2) greatest by simp
    next
      case 2
      then show ?thesis using other [of k] old [of k] by simp
    qed
  qed
  have rest: "?r ! k = 0" if "Suc (Suc i) \<le> k" "k < length dna" for k
    using that other [of k] zero [of k] by simp
  from len' filled rest show ?thesis
    unfolding failure_inv_def by blast
qed

lemma failure_inv_fold:
  assumes "Suc m \<le> length dna"
  shows "failure_inv dna (Suc m) (fold (failure_step dna) [1 ..< Suc m] (replicate (length dna) 0))"
  using assms
proof (induction m)
  case 0
  have "suffix_is_prefix dna 0 l \<Longrightarrow> l = 0" for l by (simp add: suffix_is_prefix_def)
  moreover from "0.prems" have "0 < length dna" by (cases dna) simp_all
  ultimately show ?case by (auto simp: failure_inv_def suffix_is_prefix_0)
next
  case (Suc m)
  then have inv: "failure_inv dna (Suc m) (fold (failure_step dna) [1 ..< Suc m] (replicate (length dna) 0))"
    and m: "Suc m < length dna" by simp_all
  have "[1 ..< Suc (Suc m)] = [1 ..< Suc m] @ [Suc m]" by simp
  then have "fold (failure_step dna) [1 ..< Suc (Suc m)] (replicate (length dna) 0)
        = failure_step dna (Suc m) (fold (failure_step dna) [1 ..< Suc m] (replicate (length dna) 0))"
    by (simp only: fold_append fold_simps comp_apply id_apply)
  with failure_step_inv [OF inv m] show ?case by simp
qed

text \<open>
  Claim C7. \<^verbatim>\<open>failure_array\<close> returns a list \<open>P\<close> as long as the string, with
  \<open>P[0] = 0\<close>; for every position \<open>k \<ge> 1\<close> the entry \<open>P[k]\<close> is an admissible length
  (\<open>P[k] < k + 1\<close> and the substring of that length ending at \<open>k\<close> equals the prefix
  of that length) and no admissible length is greater, although the scan starts at
  \<open>P[k-1] + 1\<close>; and \<open>P[k] \<le> k\<close> everywhere.
\<close>

theorem failure_array_greatest:
  "length (failure_array s) = length s \<and>
   (s \<noteq> [] \<longrightarrow> failure_array s ! 0 = 0) \<and>
   (\<forall>k. 1 \<le> k \<and> k < length s \<longrightarrow>
      suffix_is_prefix s k (failure_array s ! k) \<and>
      (\<forall>l. suffix_is_prefix s k l \<longrightarrow> l \<le> failure_array s ! k)) \<and>
   (\<forall>k<length s. failure_array s ! k \<le> k)"
proof (cases s)
  case Nil
  then show ?thesis by (simp add: failure_array_def)
next
  case (Cons c cs)
  then have "Suc (length cs) \<le> length s" by simp
  from failure_inv_fold [OF this] Cons
  have inv: "failure_inv s (length s) (failure_array s)"
    by (simp add: failure_array_def)
  then have g: "\<And>k. k < length s \<Longrightarrow> suffix_is_prefix s k (failure_array s ! k)"
    and m: "\<And>k l. k < length s \<Longrightarrow> suffix_is_prefix s k l \<Longrightarrow> l \<le> failure_array s ! k"
    and len: "length (failure_array s) = length s"
    by (simp_all add: failure_inv_def)
  have "failure_array s ! 0 = 0" using g [of 0] Cons by (simp add: suffix_is_prefix_def)
  moreover have "\<forall>k<length s. failure_array s ! k \<le> k"
    using g suffix_is_prefix_less by blast
  ultimately show ?thesis using g m len by blast
qed

theorem failure_array_greatest_witness:
  "length (failure_array ''AAAAA'') = length ''AAAAA'' \<and>
   failure_array ''AAAAA'' ! 0 = 0 \<and>
   suffix_is_prefix ''AAAAA'' 4 (failure_array ''AAAAA'' ! 4) \<and>
   4 \<le> failure_array ''AAAAA'' ! 4 \<and>
   failure_array ''AAAAA'' ! 4 \<le> 4"
proof -
  have a: "''AAAAA'' \<noteq> []" "(1::nat) \<le> 4 \<and> 4 < length ''AAAAA''" "suffix_is_prefix ''AAAAA'' 4 4"
    by (simp_all add: suffix_is_prefix_def)
  from failure_array_greatest [of "''AAAAA''"] a show ?thesis by blast
qed

text \<open>The two doctests of \<^verbatim>\<open>failure_array\<close>.\<close>

lemma failure_array_doctests:
  "failure_array ''CAGCATGGTATCACAGCAGAG'' =
     [0, 0, 0, 1, 2, 0, 0, 0, 0, 0, 0, 1, 2, 1, 2, 3, 4, 5, 3, 0, 0]"
  "failure_array ''AAAAA'' = [0, 1, 2, 3, 4]"
  by code_simp+

section \<open>The loops store the recurrence\<close>

lemma square_row: "square len m \<Longrightarrow> a < len \<Longrightarrow> length (m ! a) = len"
  by (simp add: square_def list_all_length)

lemma square_length: "square len m \<Longrightarrow> length m = len"
  by (simp add: square_def)

lemma square_init: "square len (init_matrix len)"
  by (simp add: square_def init_matrix_def list_all_length)

lemma init_matrix_nth: "a < len \<Longrightarrow> b < len \<Longrightarrow> init_matrix len ! a ! b = Triple (0, 0, 0)"
  by (simp add: init_matrix_def)

lemma tabulate_nth: "a < len \<Longrightarrow> b < len \<Longrightarrow> tabulate len f ! a ! b = f a b"
  by (simp add: tabulate_def)

lemma square_fill_cell:
  assumes "square len m"
  shows "square len (fill_cell rna_int m i j)"
proof -
  have "length (fill_cell rna_int m i j ! a) = len" if "a < len" for a
    using that assms square_row [OF assms, of a] square_length [OF assms]
    by (cases "a = i") (simp_all add: fill_cell_def)
  with assms show ?thesis
    by (simp add: square_def list_all_length fill_cell_def)
qed

lemma fill_cell_nth:
  assumes "square len m" "i < len" "j < len" "a < len" "b < len"
  shows "fill_cell rna_int m i j ! a ! b =
           (if a = i \<and> b = j then chosen_cell rna_int m i j else m ! a ! b)"
  using assms square_row [OF assms(1), of i] square_length [OF assms(1)]
  by (cases "a = i") (simp_all add: fill_cell_def nth_list_update)

text \<open>
  Everything \<open>chosen_cell\<close> reads at \<open>(i, j)\<close> lies in rows and columns \<open>i .. j\<close>.
\<close>

lemma chosen_cell_cong:
  assumes "i < j"
    and agree: "\<And>a b. i \<le> a \<Longrightarrow> a \<le> j \<Longrightarrow> i \<le> b \<Longrightarrow> b \<le> j \<Longrightarrow> m ! a ! b = m' ! a ! b"
  shows "chosen_cell rna_int m i j = chosen_cell rna_int m' i j"
proof -
  have s: "skip_candidate m i j = skip_candidate m' i j"
    using assms(1) agree [of "i + 1" j] agree [of i "j - 1"] by (simp add: skip_candidate_def)
  have c: "complement_score rna_int m i j = complement_score rna_int m' i j"
    using assms(1) agree [of "i + 1" "j - 1"] by (simp add: complement_score_def)
  have "bifurcations m i j = bifurcations m' i j"
    unfolding bifurcations_def
  proof (rule map_cong [OF refl])
    fix k assume "k \<in> set [i + 1 ..< j + 1]"
    then have "i < k" "k \<le> j" by auto
    then show "(score0 (m ! i ! k) + score0 (m ! k ! j), i, k, k, j) =
               (score0 (m' ! i ! k) + score0 (m' ! k ! j), i, k, k, j)"
      using assms(1) agree [of i k] agree [of k j] by simp
  qed
  then have "m2_candidate m i j = m2_candidate m' i j" by (simp add: m2_candidate_def)
  with s c show ?thesis by (simp add: chosen_cell_def m1_candidate_def)
qed

lemma table_zero: "\<not> (i + min_size \<le> j \<and> j < length rna_int) \<Longrightarrow>
    table rna_int min_size i j = Triple (0, 0, 0)"
  by (subst table.simps) auto

lemma table_unfold: "i + min_size \<le> j \<Longrightarrow> j < length rna_int \<Longrightarrow>
    table rna_int min_size i j =
      chosen_cell rna_int
        (tabulate (length rna_int)
           (\<lambda>a b. if b - a < j - i then table rna_int min_size a b else Triple (0, 0, 0)))
        i j"
  by (subst table.simps) simp

lemma fill_cell_inv:
  assumes inv: "fill_inv rna_int min_size n i m"
    and ms: "1 \<le> min_size" and i: "i + min_size + n < length rna_int"
  shows "fill_inv rna_int min_size n (Suc i) (fill_cell rna_int m i (i + min_size + n))"
proof -
  let ?L = "length rna_int" and ?j = "i + min_size + n"
  let ?T = "tabulate ?L (\<lambda>a b. if b - a < ?j - i then table rna_int min_size a b
                                else Triple (0, 0, 0))"
  from inv have sq: "square ?L m"
    and cells: "\<And>a b. a < ?L \<Longrightarrow> b < ?L \<Longrightarrow> m ! a ! b =
          (if b - a < min_size + n \<or> (b - a = min_size + n \<and> a < i)
           then table rna_int min_size a b else Triple (0, 0, 0))"
    by (simp_all add: fill_inv_def)
  have ij: "i < ?j" "i < ?L" using ms i by simp_all
  have "m ! a ! b = ?T ! a ! b" if "i \<le> a" "a \<le> ?j" "i \<le> b" "b \<le> ?j" for a b
  proof -
    have ab: "a < ?L" "b < ?L" using that i by simp_all
    have "(b - a < min_size + n \<or> (b - a = min_size + n \<and> a < i)) \<longleftrightarrow> b - a < ?j - i"
      using that by auto
    with cells [OF ab] show ?thesis by (simp add: tabulate_nth [OF ab])
  qed
  with ij(1) have "chosen_cell rna_int m i ?j = chosen_cell rna_int ?T i ?j"
    by (rule chosen_cell_cong)
  also have "\<dots> = table rna_int min_size i ?j"
    using i by (simp add: table_unfold)
  finally have new: "chosen_cell rna_int m i ?j = table rna_int min_size i ?j" .
  have "fill_cell rna_int m i ?j ! a ! b =
          (if b - a < min_size + n \<or> (b - a = min_size + n \<and> a < Suc i)
           then table rna_int min_size a b else Triple (0, 0, 0))"
    if ab: "a < ?L" "b < ?L" for a b
  proof (cases "a = i \<and> b = ?j")
    case True
    then show ?thesis using fill_cell_nth [OF sq ij(2) i ab] new by simp
  next
    case False
    then have eq: "(b - a < min_size + n \<or> (b - a = min_size + n \<and> a < Suc i)) \<longleftrightarrow>
                   (b - a < min_size + n \<or> (b - a = min_size + n \<and> a < i))"
      using ms by auto
    have "fill_cell rna_int m i ?j ! a ! b = m ! a ! b"
      using fill_cell_nth [OF sq ij(2) i ab, of rna_int] False by auto
    also note cells [OF ab]
    finally show ?thesis by (simp only: eq)
  qed
  with square_fill_cell [OF sq] show ?thesis by (simp add: fill_inv_def)
qed

lemma fill_span_fold_inv:
  assumes inv: "fill_inv rna_int min_size n 0 m" and ms: "1 \<le> min_size"
    and c: "c \<le> length rna_int - min_size - n"
  shows "fill_inv rna_int min_size n c
           (fold (\<lambda>i m. fill_cell rna_int m i (i + min_size + n)) [0 ..< c] m)"
  using c
proof (induction c)
  case 0
  with inv show ?case by simp
next
  case (Suc c)
  then have "fill_inv rna_int min_size n c
           (fold (\<lambda>i m. fill_cell rna_int m i (i + min_size + n)) [0 ..< c] m)"
    and "c + min_size + n < length rna_int" by simp_all
  from fill_cell_inv [OF this(1) ms this(2)] show ?case by simp
qed

lemma fill_span_inv:
  assumes inv: "fill_inv rna_int min_size n 0 m" and ms: "1 \<le> min_size"
  shows "fill_inv rna_int min_size (Suc n) 0 (fill_span rna_int min_size n m)"
proof -
  let ?c = "length rna_int - min_size - n"
  from fill_span_fold_inv [OF inv ms order_refl]
  have "fill_inv rna_int min_size n ?c (fill_span rna_int min_size n m)"
    by (simp add: fill_span_def)
  moreover have "(b - a < min_size + n \<or> (b - a = min_size + n \<and> a < ?c)) \<longleftrightarrow>
                 (b - a < min_size + Suc n \<or> (b - a = min_size + Suc n \<and> a < 0))"
    if "a < length rna_int" "b < length rna_int" for a b
    using that ms by auto
  ultimately show ?thesis by (simp add: fill_inv_def)
qed

lemma fill_matrix_fold_inv:
  assumes ms: "1 \<le> min_size"
  shows "fill_inv rna_int min_size c 0
           (fold (fill_span rna_int min_size) [0 ..< c] (init_matrix (length rna_int)))"
proof (induction c)
  case 0
  show ?case
    by (simp add: fill_inv_def square_init init_matrix_nth table_zero)
next
  case (Suc c)
  from fill_span_inv [OF Suc ms] show ?case by simp
qed

lemma fill_matrix_square: "1 \<le> min_size \<Longrightarrow> square (length rna_int) (fill_matrix rna_int min_size)"
  using fill_matrix_fold_inv [of min_size rna_int "length rna_int - min_size"]
  by (simp add: fill_inv_def fill_matrix_def)

lemma fill_matrix_nth:
  assumes "1 \<le> min_size" "a < length rna_int" "b < length rna_int"
  shows "fill_matrix rna_int min_size ! a ! b = table rna_int min_size a b"
proof -
  have "b - a < min_size + (length rna_int - min_size)" using assms by auto
  with fill_matrix_fold_inv [OF assms(1), of rna_int "length rna_int - min_size"] assms(2,3)
  show ?thesis by (simp add: fill_inv_def fill_matrix_def)
qed


subsection \<open>The shape of a cell, and the traceback over the filled matrix\<close>

lemma py_max_in_set:
  fixes xs :: "'a::linorder list"
  assumes "xs \<noteq> []"
  shows "py_max xs \<in> set xs"
proof -
  have "fold max ys y \<in> set (y # ys)" for y :: 'a and ys
    by (induction ys arbitrary: y) (auto simp: max_def)
  with assms show ?thesis by (cases xs) simp_all
qed

lemma table_cases:
  assumes ms: "1 \<le> min_size" and nz: "score0 (table rna_int min_size i j) \<noteq> 0"
  shows "i + min_size \<le> j \<and> j < length rna_int \<and>
         ((\<exists>s. table rna_int min_size i j = Triple (s, i + 1, j)) \<or>
          (\<exists>s. table rna_int min_size i j = Triple (s, i, j - 1)) \<or>
          (\<exists>s. table rna_int min_size i j = Triple (s, i + 1, j - 1) \<and>
                rna_int ! i + rna_int ! j = 5) \<or>
          (\<exists>s k. table rna_int min_size i j = Quintuple (s, i, k, k, j) \<and> i < k \<and> k < j))"
proof -
  let ?L = "length rna_int"
  let ?T = "tabulate ?L (\<lambda>a b. if b - a < j - i then table rna_int min_size a b
                                else Triple (0, 0, 0))"
  have range: "i + min_size \<le> j \<and> j < ?L"
  proof (rule ccontr)
    assume "\<not> (i + min_size \<le> j \<and> j < ?L)"
    then have "table rna_int min_size i j = Triple (0, 0, 0)" by (rule table_zero)
    with nz show False by simp
  qed
  then have ij: "i < j" "i < ?L" "j < ?L" using ms by simp_all
  have eq: "table rna_int min_size i j = chosen_cell rna_int ?T i j"
    using range by (simp add: table_unfold)
  let ?m1 = "m1_candidate rna_int ?T i j" and ?m2 = "m2_candidate ?T i j"
  have m1: "(\<exists>s. ?m1 = (s, i + 1, j)) \<or> (\<exists>s. ?m1 = (s, i, j - 1)) \<or>
            (\<exists>s. ?m1 = (s, i + 1, j - 1) \<and> rna_int ! i + rna_int ! j = 5)"
  proof (cases "complement_score rna_int ?T i j \<le> fst (skip_candidate ?T i j)")
    case True
    then have "?m1 = skip_candidate ?T i j" by (simp add: m1_candidate_def)
    then show ?thesis by (auto simp: skip_candidate_def max_def)
  next
    case False
    then have "?m1 = (complement_score rna_int ?T i j, i + 1, j - 1)"
      and "complement_score rna_int ?T i j \<noteq> 0"
      by (simp_all add: m1_candidate_def)
    then show ?thesis by (auto simp: complement_score_def split: if_splits)
  qed
  have ne: "bifurcations ?T i j \<noteq> []" using ij(1) by (simp add: bifurcations_def)
  from py_max_in_set [OF ne] obtain k where k: "i < k" "k \<le> j"
    and m2: "?m2 = (score0 (?T ! i ! k) + score0 (?T ! k ! j), i, k, k, j)"
    by (auto simp: m2_candidate_def bifurcations_def)
  have last: "score0 (?T ! i ! j) + score0 (?T ! j ! j) = 0"
    using ij ms by (simp add: tabulate_nth table_zero)
  show ?thesis
  proof (cases "fst ?m2 \<le> fst ?m1")
    case True
    then have "table rna_int min_size i j = Triple ?m1" by (simp add: eq chosen_cell_def)
    with m1 range show ?thesis by auto
  next
    case False
    then have q: "table rna_int min_size i j = Quintuple ?m2" by (simp add: eq chosen_cell_def)
    from False have "fst ?m2 \<noteq> 0" by simp
    with m2 last have "k \<noteq> j" by auto
    with k have "i < k" "k < j" by simp_all
    with q m2 range show ?thesis by auto
  qed
qed

lemma reconstruct_loop_Triple:
  "matrix ! i ! j = Triple (s, next_i, next_j) \<Longrightarrow>
   reconstruct_loop matrix i j structure =
     (if s = 0 then Some structure
      else reconstruct_loop matrix next_i next_j
             (if next_i = i + 1 \<and> next_j + 1 = j then structure @ [(i, j)] else structure))"
  by (subst reconstruct_loop.simps) simp

lemma reconstruct_loop_Quintuple:
  "matrix ! i ! j = Quintuple (s, i1, j1, i2, j2) \<Longrightarrow>
   reconstruct_loop matrix i j structure =
     (if s = 0 then Some structure
      else Option.bind (reconstruct_loop matrix i1 j1 []) (\<lambda>left.
           Option.bind (reconstruct_loop matrix i2 j2 []) (\<lambda>right.
           Some (structure @ left @ right))))"
  by (subst reconstruct_loop.simps) simp

lemma reconstruct_loop_zero:
  "score0 (matrix ! i ! j) = 0 \<Longrightarrow> reconstruct_loop matrix i j structure = Some structure"
  by (subst reconstruct_loop.simps) (auto split: cell.splits prod.splits)

lemma traced_Nil: "traced rna_int min_size i j []"
  by (simp add: traced_def)

lemma traced_mono:
  "traced rna_int min_size i' j' xs \<Longrightarrow> i \<le> i' \<Longrightarrow> j' \<le> j \<Longrightarrow> traced rna_int min_size i j xs"
  by (auto simp: traced_def list_all_iff)

lemma traced_Cons:
  assumes "traced rna_int min_size (i + 1) (j - 1) xs" "i + min_size \<le> j"
    "rna_int ! i + rna_int ! j = 5"
  shows "traced rna_int min_size i j ((i, j) # xs)"
  using assms by (auto simp: traced_def list_all_iff)

lemma traced_append:
  assumes "traced rna_int min_size i k xs" "traced rna_int min_size k j ys"
    "i \<le> k" "k \<le> j" "1 \<le> min_size"
  shows "traced rna_int min_size i j (xs @ ys)"
  using assms by (fastforce simp: traced_def list_all_iff sorted_wrt_append)

lemma reconstruct_loop_table:
  assumes ms: "1 \<le> min_size"
    and m: "\<And>a b. a < length rna_int \<Longrightarrow> b < length rna_int \<Longrightarrow>
              matrix ! a ! b = table rna_int min_size a b"
  shows "i < length rna_int \<Longrightarrow> j < length rna_int \<Longrightarrow>
         \<exists>xs. reconstruct_loop matrix i j acc = Some (acc @ xs) \<and>
              traced rna_int min_size i j xs"
proof (induction "j - i" arbitrary: i j acc rule: less_induct)
  case less
  let ?c = "table rna_int min_size i j"
  have c: "matrix ! i ! j = ?c" using less.prems by (rule m)
  show ?case
  proof (cases "score0 ?c = 0")
    case True
    then show ?thesis using c by (auto simp: reconstruct_loop_zero traced_Nil)
  next
    case False
    from table_cases [OF ms False] have range: "i + min_size \<le> j" "j < length rna_int"
      and shape: "(\<exists>s. ?c = Triple (s, i + 1, j)) \<or> (\<exists>s. ?c = Triple (s, i, j - 1)) \<or>
          (\<exists>s. ?c = Triple (s, i + 1, j - 1) \<and> rna_int ! i + rna_int ! j = 5) \<or>
          (\<exists>s k. ?c = Quintuple (s, i, k, k, j) \<and> i < k \<and> k < j)"
      by simp_all
    from range ms have ij: "i < j" by simp
    from shape consider
      (right) s where "?c = Triple (s, i + 1, j)"
      | (left) s where "?c = Triple (s, i, j - 1)"
      | (pair) s where "?c = Triple (s, i + 1, j - 1)" "rna_int ! i + rna_int ! j = 5"
      | (split) s k where "?c = Quintuple (s, i, k, k, j)" "i < k" "k < j"
      by blast
    then show ?thesis
    proof cases
      case right
      with False have s: "s \<noteq> 0" by simp
      have "j - (i + 1) < j - i" "i + 1 < length rna_int" using ij range by simp_all
      from less.hyps [OF this less.prems(2), of acc] obtain xs where
        xs: "reconstruct_loop matrix (i + 1) j acc = Some (acc @ xs)"
        "traced rna_int min_size (i + 1) j xs" by blast
      have "reconstruct_loop matrix i j acc = Some (acc @ xs)"
        using c right s xs(1) by (simp add: reconstruct_loop_Triple)
      with traced_mono [OF xs(2), of i j] show ?thesis by simp
    next
      case left
      with False have s: "s \<noteq> 0" by simp
      have "j - 1 - i < j - i" "j - 1 < length rna_int" using ij range by simp_all
      from less.hyps [OF this(1) less.prems(1) this(2), of acc] obtain xs where
        xs: "reconstruct_loop matrix i (j - 1) acc = Some (acc @ xs)"
        "traced rna_int min_size i (j - 1) xs" by blast
      have "reconstruct_loop matrix i j acc = Some (acc @ xs)"
        using c left s xs(1) by (simp add: reconstruct_loop_Triple)
      with traced_mono [OF xs(2), of i j] show ?thesis by simp
    next
      case pair
      with False have s: "s \<noteq> 0" by simp
      have "j - 1 - (i + 1) < j - i" "i + 1 < length rna_int" "j - 1 < length rna_int"
        using ij range by simp_all
      from less.hyps [OF this, of "acc @ [(i, j)]"] obtain xs where
        xs: "reconstruct_loop matrix (i + 1) (j - 1) (acc @ [(i, j)])
               = Some ((acc @ [(i, j)]) @ xs)"
        "traced rna_int min_size (i + 1) (j - 1) xs" by blast
      have "reconstruct_loop matrix i j acc = Some (acc @ (i, j) # xs)"
        using c pair(1) s xs(1) ij by (simp add: reconstruct_loop_Triple)
      with traced_Cons [OF xs(2) range(1) pair(2)] show ?thesis by blast
    next
      case split
      with False have s: "s \<noteq> 0" by simp
      have k: "k < length rna_int" using split(3) range by simp
      have "k - i < j - i" using split(2,3) by simp
      from less.hyps [OF this less.prems(1) k, of "[]"] obtain xs where
        xs: "reconstruct_loop matrix i k [] = Some xs" "traced rna_int min_size i k xs"
        by auto
      have "j - k < j - i" using split(2,3) by simp
      from less.hyps [OF this k less.prems(2), of "[]"] obtain ys where
        ys: "reconstruct_loop matrix k j [] = Some ys" "traced rna_int min_size k j ys"
        by auto
      have "reconstruct_loop matrix i j acc = Some (acc @ xs @ ys)"
        using c split(1) s xs(1) ys(1) by (simp add: reconstruct_loop_Quintuple)
      moreover have "traced rna_int min_size i j (xs @ ys)"
        using traced_append [OF xs(2) ys(2) _ _ ms] split(2,3) by simp
      ultimately show ?thesis by blast
    qed
  qed
qed

lemma fill_matrix_last:
  assumes "1 \<le> min_size" "rna_int \<noteq> []"
  shows "last (fill_matrix rna_int min_size ! 0) = table rna_int min_size 0 (length rna_int - 1)"
proof -
  let ?L = "length rna_int"
  have L: "0 < ?L" using assms(2) by simp
  have len: "length (fill_matrix rna_int min_size ! 0) = ?L"
    using square_row [OF fill_matrix_square [OF assms(1)] L] .
  then have "fill_matrix rna_int min_size ! 0 \<noteq> []" using L by auto
  then have "last (fill_matrix rna_int min_size ! 0) = fill_matrix rna_int min_size ! 0 ! (?L - 1)"
    by (simp add: last_conv_nth len)
  also have "\<dots> = table rna_int min_size 0 (?L - 1)"
    using L by (simp add: fill_matrix_nth [OF assms(1)])
  finally show ?thesis .
qed

section \<open>The traceback returns an increasing list\<close>

lemma rna_int_of_valid:
  assumes "set rna \<subseteq> {CHR ''A'', CHR ''C'', CHR ''G'', CHR ''U''}"
  shows "\<exists>rna_int. rna_int_of rna = Inr rna_int \<and> length rna_int = length rna \<and>
           (\<forall>k<length rna. rna_to_int_map (rna ! k) = Some (rna_int ! k))"
  using assms
proof (induction rna)
  case Nil
  then show ?case by simp
next
  case (Cons letter rest)
  then obtain vs where vs: "rna_int_of rest = Inr vs" "length vs = length rest"
    "\<forall>k<length rest. rna_to_int_map (rest ! k) = Some (vs ! k)" by auto
  from Cons.prems obtain v where v: "rna_to_int_map letter = Some v"
    using rna_to_int_map_None [of letter] by (cases "rna_to_int_map letter") auto
  have "\<forall>k<length (letter # rest). rna_to_int_map ((letter # rest) ! k) = Some ((v # vs) ! k)"
    using v vs(3) by (auto simp: nth_Cons split: nat.splits)
  with v vs(1,2) show ?case by simp
qed

lemma rna_prediction_traced:
  assumes "rna_int_of rna = Inr rna_int" "length rna_int = length rna" "rna \<noteq> []"
    "0 \<le> min_size"
  shows "\<exists>pairs. rna_structure_prediction rna min_size =
                   Some (Inr (pairs, component1 (table rna_int (nat (min_size + 1)) 0
                                                   (length rna - 1)))) \<and>
                 reconstruct_loop (fill_matrix rna_int (nat (min_size + 1))) 0 (length rna - 1) []
                   = Some pairs \<and>
                 traced rna_int (nat (min_size + 1)) 0 (length rna - 1) pairs"
proof -
  let ?ms = "nat (min_size + 1)" and ?L = "length rna_int"
  have ms: "1 \<le> ?ms" using assms(4) by simp
  have L: "0 < ?L" "?L - 1 < ?L" using assms(2,3) by simp_all
  have ne: "rna_int \<noteq> []" using L(1) by auto
  from reconstruct_loop_table [OF ms fill_matrix_nth [OF ms] L, where acc = "[]"]
  obtain pairs where pairs:
    "reconstruct_loop (fill_matrix rna_int ?ms) 0 (?L - 1) [] = Some pairs"
    "traced rna_int ?ms 0 (?L - 1) pairs" by auto
  have "rna_structure_prediction rna min_size =
          Some (Inr (pairs, component1 (table rna_int ?ms 0 (?L - 1))))"
    using assms pairs(1) fill_matrix_last [OF ms ne]
    by (simp add: rna_structure_prediction_def rna_structure_reconstruct_answer_def Let_def)
  with pairs assms(2) show ?thesis by auto
qed

lemma rna_returns_increasing:
  assumes "set rna \<subseteq> {CHR ''A'', CHR ''C'', CHR ''G'', CHR ''U''}" "rna \<noteq> []" "0 \<le> min_size"
  shows "\<exists>pairs aux. rna_structure_prediction rna min_size = Some (Inr (pairs, aux)) \<and>
                     sorted_wrt (\<lambda>p q. fst p < fst q) pairs"
proof -
  from rna_int_of_valid [OF assms(1)] obtain rna_int where
    "rna_int_of rna = Inr rna_int" "length rna_int = length rna" by blast
  from rna_prediction_traced [OF this assms(2,3)] show ?thesis
    by (auto simp: traced_def)
qed

lemma rna_int_of_Inr_valid:
  assumes "rna_int_of rna = Inr rna_int"
  shows "set rna \<subseteq> {CHR ''A'', CHR ''C'', CHR ''G'', CHR ''U''}"
proof (rule ccontr)
  assume "\<not> set rna \<subseteq> {CHR ''A'', CHR ''C'', CHR ''G'', CHR ''U''}"
  then have "\<exists>c \<in> set rna. rna_to_int_map c = None"
    unfolding rna_to_int_map_None by blast
  from rna_int_of_bad [OF this] assms show False by auto
qed

lemma rna_returns_valid:
  assumes "rna_structure_prediction rna min_size = Some (Inr result)"
  shows "set rna \<subseteq> {CHR ''A'', CHR ''C'', CHR ''G'', CHR ''U''} \<and> rna \<noteq> [] \<and> 0 \<le> min_size"
proof (cases "rna_int_of rna")
  case (Inl e)
  with assms show ?thesis by (simp add: rna_structure_prediction_def)
next
  case (Inr rna_int)
  with assms have "rna \<noteq> []" "0 \<le> min_size"
    by (auto simp: rna_structure_prediction_def split: if_splits)
  with rna_int_of_Inr_valid [OF Inr] show ?thesis by simp
qed

text \<open>
  Claim C10. The function returns its pairs as a list. On every non-empty string over
  \<open>A, C, G, U\<close> and every \<open>min_size \<ge> 0\<close> the traceback returns and so does the
  function; it returns on no other input; and whenever it returns, the list is strictly
  increasing in the first index of its pairs: a pair recorded at \<open>(i, j)\<close> comes before
  the pairs of the span \<open>(i + 1, j - 1)\<close>, and at a bifurcation the pairs of \<open>[i, k]\<close>
  come before those of \<open>[k, j]\<close> (\<open>reconstruct_loop_table\<close>).
\<close>

theorem rna_pairs_increasing:
  "(set rna \<subseteq> {CHR ''A'', CHR ''C'', CHR ''G'', CHR ''U''} \<and> rna \<noteq> [] \<and> 0 \<le> min_size \<longrightarrow>
      (\<exists>pairs aux. rna_structure_prediction rna min_size = Some (Inr (pairs, aux)))) \<and>
   (\<forall>pairs aux. rna_structure_prediction rna min_size = Some (Inr (pairs, aux)) \<longrightarrow>
      sorted_wrt (\<lambda>p q. fst p < fst q) pairs)"
proof (intro conjI impI allI)
  assume "set rna \<subseteq> {CHR ''A'', CHR ''C'', CHR ''G'', CHR ''U''} \<and> rna \<noteq> [] \<and> 0 \<le> min_size"
  then show "\<exists>pairs aux. rna_structure_prediction rna min_size = Some (Inr (pairs, aux))"
    using rna_returns_increasing [of rna min_size] by blast
next
  fix pairs aux
  assume r: "rna_structure_prediction rna min_size = Some (Inr (pairs, aux))"
  from rna_returns_valid [OF r] rna_returns_increasing [of rna min_size] r
  show "sorted_wrt (\<lambda>p q. fst p < fst q) pairs" by auto
qed

theorem rna_pairs_increasing_witness:
  "rna_structure_prediction ''ACCCUCCCA'' 3 = Some (Inr ([(0, 4), (4, 8)], 0)) \<and>
   sorted_wrt (\<lambda>p q. fst p < fst q) [(0 :: nat, 4 :: nat), (4, 8)]"
proof -
  have e: "rna_structure_prediction ''ACCCUCCCA'' 3 = Some (Inr ([(0, 4), (4, 8)], 0))"
    by code_simp
  with rna_pairs_increasing [of "''ACCCUCCCA''" 3] show ?thesis by blast
qed

text \<open>
  The parts of the matching property that do hold of every returned pair \<open>(i, j)\<close>:
  \<open>i < j\<close>, both inside the string, \<open>j - i > min_size\<close>, and codes that sum to 5.
\<close>

lemma rna_pairs_sound:
  assumes "set rna \<subseteq> {CHR ''A'', CHR ''C'', CHR ''G'', CHR ''U''}" "rna \<noteq> []" "0 \<le> min_size"
  shows "\<exists>pairs aux. rna_structure_prediction rna min_size = Some (Inr (pairs, aux)) \<and>
           (\<forall>(i, j) \<in> set pairs. i < j \<and> j < length rna \<and> min_size < int j - int i \<and>
              (\<exists>x y. rna_to_int_map (rna ! i) = Some x \<and> rna_to_int_map (rna ! j) = Some y \<and>
                     x + y = 5))"
proof -
  from rna_int_of_valid [OF assms(1)] obtain rna_int where r:
    "rna_int_of rna = Inr rna_int" "length rna_int = length rna"
    "\<forall>k<length rna. rna_to_int_map (rna ! k) = Some (rna_int ! k)" by blast
  from rna_prediction_traced [OF r(1,2) assms(2,3)] obtain pairs aux where p:
    "rna_structure_prediction rna min_size = Some (Inr (pairs, aux))"
    "traced rna_int (nat (min_size + 1)) 0 (length rna - 1) pairs" by blast
  have "i < j \<and> j < length rna \<and> min_size < int j - int i \<and>
        (\<exists>x y. rna_to_int_map (rna ! i) = Some x \<and> rna_to_int_map (rna ! j) = Some y \<and> x + y = 5)"
    if "(i, j) \<in> set pairs" for i j
  proof -
    from p(2) that have t: "j \<le> length rna - 1" "i + nat (min_size + 1) \<le> j"
      "rna_int ! i + rna_int ! j = 5"
      by (auto simp: traced_def list_all_iff)
    from assms(2) t(1) have j: "j < length rna" by (cases rna) simp_all
    from t(2) assms(3) have ij: "i < j" "min_size < int j - int i" by linarith+
    from r(3) j ij(1) t(3) show ?thesis using ij by auto
  qed
  with p(1) show ?thesis by blast
qed

text \<open>
  A non-empty valid sequence shorter than \<open>min_size + 1\<close> gives the empty pairing and the
  second value 0.
\<close>

lemma rna_short_nonempty_returns_empty:
  assumes "set rna \<subseteq> {CHR ''A'', CHR ''C'', CHR ''G'', CHR ''U''}" "rna \<noteq> []" "0 \<le> min_size"
    "int (length rna) < min_size + 1"
  shows "rna_structure_prediction rna min_size = Some (Inr ([], 0))"
proof -
  from rna_int_of_valid [OF assms(1)] obtain rna_int where r:
    "rna_int_of rna = Inr rna_int" "length rna_int = length rna" by blast
  let ?ms = "nat (min_size + 1)"
  have z: "table rna_int ?ms 0 (length rna - 1) = Triple (0, 0, 0)"
    using assms(4) r(2) by (intro table_zero) linarith
  from rna_prediction_traced [OF r assms(2,3)] obtain pairs where p:
    "rna_structure_prediction rna min_size = Some (Inr (pairs, 0))"
    "reconstruct_loop (fill_matrix rna_int ?ms) 0 (length rna - 1) [] = Some pairs"
    unfolding z by auto
  have ms: "1 \<le> ?ms" using assms(3) by simp
  have "length rna - 1 < length rna_int" using assms(2) r(2) by simp
  with z have "score0 (fill_matrix rna_int ?ms ! 0 ! (length rna - 1)) = 0"
    using fill_matrix_nth [OF ms, of 0 rna_int "length rna - 1"] assms(2) r(2) by simp
  from reconstruct_loop_zero [OF this, of "[]"] p show ?thesis by simp
qed

section \<open>The doctests of \<^verbatim>\<open>rna_structure_prediction\<close>\<close>

text \<open>
  Evaluation of the recurrence on the codes of \<^verbatim>\<open>CCCAAAGGGAAAGGGAAACCC\<close>, one span
  length after the other; each lemma uses the cells of the shorter spans.
\<close>

lemma table_step:
  "i + min_size \<le> j \<Longrightarrow> j < length rna_int \<Longrightarrow>
   chosen_cell rna_int
     (tabulate (length rna_int)
        (\<lambda>a b. if b - a < j - i then table rna_int min_size a b else Triple (0, 0, 0)))
     i j = c \<Longrightarrow>
   table rna_int min_size i j = c"
  by (simp add: table_unfold)

lemma upt_step: "i < j \<Longrightarrow> [i ..< j] = i # [i + 1 ..< j]"
  by (simp add: upt_conv_Cons)

lemma nth_Cons_1: "(x # xs) ! 1 = xs ! 0"
  by simp

lemmas evalrules = chosen_cell_def m1_candidate_def skip_candidate_def complement_score_def
  m2_candidate_def bifurcations_def Let_def tabulate_nth table_zero upt_step max_def nth_Cons_1

lemma rna21_diag0 [rna21_cells]:
  "table rna21 4 0 4 = Triple (0, 1, 4) \<and>
   table rna21 4 1 5 = Triple (0, 2, 5) \<and>
   table rna21 4 2 6 = Triple (1, 3, 5) \<and>
   table rna21 4 3 7 = Triple (0, 4, 7) \<and>
   table rna21 4 4 8 = Triple (0, 5, 8) \<and>
   table rna21 4 5 9 = Triple (0, 6, 9) \<and>
   table rna21 4 6 10 = Triple (0, 7, 10) \<and>
   table rna21 4 7 11 = Triple (0, 8, 11) \<and>
   table rna21 4 8 12 = Triple (0, 9, 12) \<and>
   table rna21 4 9 13 = Triple (0, 10, 13) \<and>
   table rna21 4 10 14 = Triple (0, 11, 14) \<and>
   table rna21 4 11 15 = Triple (0, 12, 15) \<and>
   table rna21 4 12 16 = Triple (0, 13, 16) \<and>
   table rna21 4 13 17 = Triple (0, 14, 17) \<and>
   table rna21 4 14 18 = Triple (1, 15, 17) \<and>
   table rna21 4 15 19 = Triple (0, 16, 19) \<and>
   table rna21 4 16 20 = Triple (0, 17, 20)"
  by (intro conjI; (rule table_step, simp, simp,
        simp add: evalrules rna21_cells del: One_nat_def upt_rec_numeral))

lemma rna21_diag1 [rna21_cells]:
  "table rna21 4 0 5 = Triple (0, 1, 5) \<and>
   table rna21 4 1 6 = Triple (1, 2, 6) \<and>
   table rna21 4 2 7 = Triple (1, 2, 6) \<and>
   table rna21 4 3 8 = Triple (0, 4, 8) \<and>
   table rna21 4 4 9 = Triple (0, 5, 9) \<and>
   table rna21 4 5 10 = Triple (0, 6, 10) \<and>
   table rna21 4 6 11 = Triple (0, 7, 11) \<and>
   table rna21 4 7 12 = Triple (0, 8, 12) \<and>
   table rna21 4 8 13 = Triple (0, 9, 13) \<and>
   table rna21 4 9 14 = Triple (0, 10, 14) \<and>
   table rna21 4 10 15 = Triple (0, 11, 15) \<and>
   table rna21 4 11 16 = Triple (0, 12, 16) \<and>
   table rna21 4 12 17 = Triple (0, 13, 17) \<and>
   table rna21 4 13 18 = Triple (1, 14, 18) \<and>
   table rna21 4 14 19 = Triple (1, 14, 18) \<and>
   table rna21 4 15 20 = Triple (0, 16, 20)"
  by (intro conjI; (rule table_step, simp, simp,
        simp add: evalrules rna21_cells del: One_nat_def upt_rec_numeral))

lemma rna21_diag2 [rna21_cells]:
  "table rna21 4 0 6 = Triple (1, 1, 6) \<and>
   table rna21 4 1 7 = Triple (2, 2, 6) \<and>
   table rna21 4 2 8 = Triple (1, 2, 7) \<and>
   table rna21 4 3 9 = Triple (0, 4, 9) \<and>
   table rna21 4 4 10 = Triple (0, 5, 10) \<and>
   table rna21 4 5 11 = Triple (0, 6, 11) \<and>
   table rna21 4 6 12 = Triple (0, 7, 12) \<and>
   table rna21 4 7 13 = Triple (0, 8, 13) \<and>
   table rna21 4 8 14 = Triple (0, 9, 14) \<and>
   table rna21 4 9 15 = Triple (0, 10, 15) \<and>
   table rna21 4 10 16 = Triple (0, 11, 16) \<and>
   table rna21 4 11 17 = Triple (0, 12, 17) \<and>
   table rna21 4 12 18 = Triple (1, 13, 18) \<and>
   table rna21 4 13 19 = Triple (2, 14, 18) \<and>
   table rna21 4 14 20 = Triple (1, 14, 19)"
  by (intro conjI; (rule table_step, simp, simp,
        simp add: evalrules rna21_cells del: One_nat_def upt_rec_numeral))

lemma rna21_diag3 [rna21_cells]:
  "table rna21 4 0 7 = Triple (2, 1, 7) \<and>
   table rna21 4 1 8 = Triple (2, 1, 7) \<and>
   table rna21 4 2 9 = Triple (1, 2, 8) \<and>
   table rna21 4 3 10 = Triple (0, 4, 10) \<and>
   table rna21 4 4 11 = Triple (0, 5, 11) \<and>
   table rna21 4 5 12 = Triple (0, 6, 12) \<and>
   table rna21 4 6 13 = Triple (0, 7, 13) \<and>
   table rna21 4 7 14 = Triple (0, 8, 14) \<and>
   table rna21 4 8 15 = Triple (0, 9, 15) \<and>
   table rna21 4 9 16 = Triple (0, 10, 16) \<and>
   table rna21 4 10 17 = Triple (0, 11, 17) \<and>
   table rna21 4 11 18 = Triple (1, 12, 18) \<and>
   table rna21 4 12 19 = Triple (2, 13, 19) \<and>
   table rna21 4 13 20 = Triple (2, 13, 19)"
  by (intro conjI; (rule table_step, simp, simp,
        simp add: evalrules rna21_cells del: One_nat_def upt_rec_numeral))

lemma rna21_diag4 [rna21_cells]:
  "table rna21 4 0 8 = Triple (3, 1, 7) \<and>
   table rna21 4 1 9 = Triple (2, 1, 8) \<and>
   table rna21 4 2 10 = Triple (1, 2, 9) \<and>
   table rna21 4 3 11 = Triple (0, 4, 11) \<and>
   table rna21 4 4 12 = Triple (0, 5, 12) \<and>
   table rna21 4 5 13 = Triple (0, 6, 13) \<and>
   table rna21 4 6 14 = Triple (0, 7, 14) \<and>
   table rna21 4 7 15 = Triple (0, 8, 15) \<and>
   table rna21 4 8 16 = Triple (0, 9, 16) \<and>
   table rna21 4 9 17 = Triple (0, 10, 17) \<and>
   table rna21 4 10 18 = Triple (1, 11, 18) \<and>
   table rna21 4 11 19 = Triple (2, 12, 19) \<and>
   table rna21 4 12 20 = Triple (3, 13, 19)"
  by (intro conjI; (rule table_step, simp, simp,
        simp add: evalrules rna21_cells del: One_nat_def upt_rec_numeral))

lemma rna21_diag5 [rna21_cells]:
  "table rna21 4 0 9 = Triple (3, 0, 8) \<and>
   table rna21 4 1 10 = Triple (2, 1, 9) \<and>
   table rna21 4 2 11 = Triple (1, 2, 10) \<and>
   table rna21 4 3 12 = Triple (0, 4, 12) \<and>
   table rna21 4 4 13 = Triple (0, 5, 13) \<and>
   table rna21 4 5 14 = Triple (0, 6, 14) \<and>
   table rna21 4 6 15 = Triple (0, 7, 15) \<and>
   table rna21 4 7 16 = Triple (0, 8, 16) \<and>
   table rna21 4 8 17 = Triple (0, 9, 17) \<and>
   table rna21 4 9 18 = Triple (1, 10, 18) \<and>
   table rna21 4 10 19 = Triple (2, 11, 19) \<and>
   table rna21 4 11 20 = Triple (3, 12, 20)"
  by (intro conjI; (rule table_step, simp, simp,
        simp add: evalrules rna21_cells del: One_nat_def upt_rec_numeral))

lemma rna21_diag6 [rna21_cells]:
  "table rna21 4 0 10 = Triple (3, 0, 9) \<and>
   table rna21 4 1 11 = Triple (2, 1, 10) \<and>
   table rna21 4 2 12 = Triple (1, 2, 11) \<and>
   table rna21 4 3 13 = Triple (0, 4, 13) \<and>
   table rna21 4 4 14 = Triple (0, 5, 14) \<and>
   table rna21 4 5 15 = Triple (0, 6, 15) \<and>
   table rna21 4 6 16 = Triple (0, 7, 16) \<and>
   table rna21 4 7 17 = Triple (0, 8, 17) \<and>
   table rna21 4 8 18 = Triple (1, 9, 18) \<and>
   table rna21 4 9 19 = Triple (2, 10, 19) \<and>
   table rna21 4 10 20 = Triple (3, 11, 20)"
  by (intro conjI; (rule table_step, simp, simp,
        simp add: evalrules rna21_cells del: One_nat_def upt_rec_numeral))

lemma rna21_diag7 [rna21_cells]:
  "table rna21 4 0 11 = Triple (3, 0, 10) \<and>
   table rna21 4 1 12 = Triple (2, 1, 11) \<and>
   table rna21 4 2 13 = Triple (1, 2, 12) \<and>
   table rna21 4 3 14 = Triple (0, 4, 14) \<and>
   table rna21 4 4 15 = Triple (0, 5, 15) \<and>
   table rna21 4 5 16 = Triple (0, 6, 16) \<and>
   table rna21 4 6 17 = Triple (0, 7, 17) \<and>
   table rna21 4 7 18 = Triple (1, 8, 18) \<and>
   table rna21 4 8 19 = Triple (2, 9, 19) \<and>
   table rna21 4 9 20 = Triple (3, 10, 20)"
  by (intro conjI; (rule table_step, simp, simp,
        simp add: evalrules rna21_cells del: One_nat_def upt_rec_numeral))

lemma rna21_diag8 [rna21_cells]:
  "table rna21 4 0 12 = Triple (3, 0, 11) \<and>
   table rna21 4 1 13 = Triple (2, 1, 12) \<and>
   table rna21 4 2 14 = Triple (1, 2, 13) \<and>
   table rna21 4 3 15 = Triple (0, 4, 15) \<and>
   table rna21 4 4 16 = Triple (0, 5, 16) \<and>
   table rna21 4 5 17 = Triple (0, 6, 17) \<and>
   table rna21 4 6 18 = Triple (1, 7, 18) \<and>
   table rna21 4 7 19 = Triple (2, 8, 19) \<and>
   table rna21 4 8 20 = Triple (3, 9, 20)"
  by (intro conjI; (rule table_step, simp, simp,
        simp add: evalrules rna21_cells del: One_nat_def upt_rec_numeral))

lemma rna21_diag9 [rna21_cells]:
  "table rna21 4 0 13 = Triple (3, 0, 12) \<and>
   table rna21 4 1 14 = Triple (2, 1, 13) \<and>
   table rna21 4 2 15 = Triple (1, 2, 14) \<and>
   table rna21 4 3 16 = Triple (0, 4, 16) \<and>
   table rna21 4 4 17 = Triple (0, 5, 17) \<and>
   table rna21 4 5 18 = Triple (1, 6, 18) \<and>
   table rna21 4 6 19 = Triple (2, 7, 19) \<and>
   table rna21 4 7 20 = Triple (3, 8, 20)"
  by (intro conjI; (rule table_step, simp, simp,
        simp add: evalrules rna21_cells del: One_nat_def upt_rec_numeral))

lemma rna21_diag10 [rna21_cells]:
  "table rna21 4 0 14 = Triple (3, 0, 13) \<and>
   table rna21 4 1 15 = Triple (2, 1, 14) \<and>
   table rna21 4 2 16 = Triple (1, 2, 15) \<and>
   table rna21 4 3 17 = Triple (0, 4, 17) \<and>
   table rna21 4 4 18 = Triple (1, 5, 18) \<and>
   table rna21 4 5 19 = Triple (2, 6, 19) \<and>
   table rna21 4 6 20 = Triple (3, 7, 20)"
  by (intro conjI; (rule table_step, simp, simp,
        simp add: evalrules rna21_cells del: One_nat_def upt_rec_numeral))

lemma rna21_diag11 [rna21_cells]:
  "table rna21 4 0 15 = Triple (3, 0, 14) \<and>
   table rna21 4 1 16 = Triple (2, 1, 15) \<and>
   table rna21 4 2 17 = Triple (1, 2, 16) \<and>
   table rna21 4 3 18 = Triple (1, 4, 18) \<and>
   table rna21 4 4 19 = Triple (2, 5, 19) \<and>
   table rna21 4 5 20 = Triple (3, 6, 20)"
  by (intro conjI; (rule table_step, simp, simp,
        simp add: evalrules rna21_cells del: One_nat_def upt_rec_numeral))

lemma rna21_diag12 [rna21_cells]:
  "table rna21 4 0 16 = Triple (3, 0, 15) \<and>
   table rna21 4 1 17 = Triple (2, 1, 16) \<and>
   table rna21 4 2 18 = Quintuple (2, 2, 14, 14, 18) \<and>
   table rna21 4 3 19 = Triple (2, 4, 19) \<and>
   table rna21 4 4 20 = Triple (3, 5, 20)"
  by (intro conjI; (rule table_step, simp, simp,
        simp add: evalrules rna21_cells del: One_nat_def upt_rec_numeral))

lemma rna21_diag13 [rna21_cells]:
  "table rna21 4 0 17 = Triple (3, 0, 16) \<and>
   table rna21 4 1 18 = Quintuple (3, 1, 14, 14, 18) \<and>
   table rna21 4 2 19 = Quintuple (3, 2, 13, 13, 19) \<and>
   table rna21 4 3 20 = Triple (3, 4, 20)"
  by (intro conjI; (rule table_step, simp, simp,
        simp add: evalrules rna21_cells del: One_nat_def upt_rec_numeral))

lemma rna21_diag14 [rna21_cells]:
  "table rna21 4 0 18 = Quintuple (4, 0, 14, 14, 18) \<and>
   table rna21 4 1 19 = Quintuple (4, 1, 13, 13, 19) \<and>
   table rna21 4 2 20 = Quintuple (4, 2, 12, 12, 20)"
  by (intro conjI; (rule table_step, simp, simp,
        simp add: evalrules rna21_cells del: One_nat_def upt_rec_numeral))

lemma rna21_diag15 [rna21_cells]:
  "table rna21 4 0 19 = Quintuple (5, 0, 13, 13, 19) \<and>
   table rna21 4 1 20 = Quintuple (5, 1, 12, 12, 20)"
  by (intro conjI; (rule table_step, simp, simp,
        simp add: evalrules rna21_cells del: One_nat_def upt_rec_numeral))

lemma rna21_diag16 [rna21_cells]:
  "table rna21 4 0 20 = Quintuple (6, 0, 12, 12, 20)"
  by (rule table_step, simp, simp,
      simp add: evalrules rna21_cells del: One_nat_def upt_rec_numeral)

lemma rna21_int:
  "rna_int_of ''CCCAAAGGGAAAGGGAAACCC'' = Inr rna21"
  by (simp add: rna_to_int_map_def)

lemma rna21_traceback:
  "reconstruct_loop (fill_matrix rna21 4) 0 20 [] =
   Some [(0, 8), (1, 7), (2, 6), (12, 20), (13, 19), (14, 18)]"
  by (simp add: reconstruct_loop.simps fill_matrix_nth table_zero rna21_cells
           del: One_nat_def)

text \<open>
  Claim C4. With the default \<open>min_size = 3\<close>, \<^verbatim>\<open>ACCCU\<close> gives the pairs \<open>[(0, 4)]\<close> and
  the second value 1, and \<^verbatim>\<open>CCCAAAGGGAAAGGGAAACCC\<close> gives the pairs
  \<open>[(0, 8), (1, 7), (2, 6), (12, 20), (13, 19), (14, 18)]\<close> and the second value 0: the
  two doctests.
\<close>

theorem rna_doctests:
  "rna_structure_prediction ''ACCCU'' 3 = Some (Inr ([(0, 4)], 1)) \<and>
   rna_structure_prediction ''CCCAAAGGGAAAGGGAAACCC'' 3 =
     Some (Inr ([(0, 8), (1, 7), (2, 6), (12, 20), (13, 19), (14, 18)], 0))"
proof
  show "rna_structure_prediction ''ACCCU'' 3 = Some (Inr ([(0, 4)], 1))"
    by code_simp
  have "last (fill_matrix rna21 4 ! 0) = table rna21 4 0 (length rna21 - 1)"
    by (rule fill_matrix_last) simp_all
  also have "length rna21 - 1 = 20" by simp
  finally have aux: "component1 (last (fill_matrix rna21 4 ! 0)) = 0"
    by (simp only: rna21_diag16 component1.simps fst_conv snd_conv)
  have len: "length ''CCCAAAGGGAAAGGGAAACCC'' - 1 = 20" by simp
  show "rna_structure_prediction ''CCCAAAGGGAAAGGGAAACCC'' 3 =
     Some (Inr ([(0, 8), (1, 7), (2, 6), (12, 20), (13, 19), (14, 18)], 0))"
    unfolding rna_structure_prediction_def rna21_int len
    by (simp add: Let_def rna_structure_reconstruct_answer_def rna21_traceback aux
             del: One_nat_def)
qed

end
